theory Spec2Isabelle
  imports Complex_Main "HOL-Library.Char_ord" "HOL-Library.List_Lexorder"
begin

section \<open>Data model\<close>

text \<open>
  The program (\<^verbatim>\<open>cleaning.py\<close>) is a chain of functions over a pandas DataFrame.
  A DataFrame is modelled by its row labels and its ordered, named columns. A column
  (a Series) has one declared type: \<^verbatim>\<open>int64\<close> (no missing marker possible),
  \<^verbatim>\<open>float64\<close> (a finite number or the missing marker NaN) or \<^verbatim>\<open>object\<close>
  (a text or the missing marker). Finite floating-point numbers are modelled by the
  rationals they denote; infinities and floating-point rounding of the arithmetic are
  outside the model. The missing marker is \<open>None\<close>.
\<close>

datatype error = ValueError | AttributeError | KeyError | IntCastingNaNError | FileNotFoundError

datatype series =
    IntS "int list"
  | FloatS "rat option list"
  | ObjS "string option list"

type_synonym column = "string \<times> series"

record table =
  index :: "int list"
  columns :: "column list"

fun series_len :: "series \<Rightarrow> nat" where
  "series_len (IntS xs) = length xs"
| "series_len (FloatS xs) = length xs"
| "series_len (ObjS xs) = length xs"

definition column_names :: "table \<Rightarrow> string list" where
  "column_names df = map fst (columns df)"

text \<open>
  Well-formed tables: the column names are distinct (the steps address columns by name)
  and every column has one cell per row label.
\<close>

definition wf_table :: "table \<Rightarrow> bool" where
  "wf_table df \<longleftrightarrow>
     distinct (column_names df) \<and>
     list_all (\<lambda>c. series_len (snd c) = length (index df)) (columns df)"

section \<open>Text operations\<close>

text \<open>\<^verbatim>\<open>str.lower\<close>, on the ASCII letters: other characters are kept.\<close>

definition char_lower :: "char \<Rightarrow> char" where
  "char_lower c =
     (let n = (of_char c :: nat) in if 65 \<le> n \<and> n \<le> 90 then char_of (n + 32) else c)"

definition str_lower :: "string \<Rightarrow> string" where
  "str_lower s = map char_lower s"

text \<open>
  \<^verbatim>\<open>str.replace(pat, repl, regex=False)\<close> for a pattern of one character, which is all
  the program uses (\<^verbatim>\<open>" "\<close> and \<^verbatim>\<open>"%"\<close>): every occurrence is replaced.
\<close>

definition str_replace :: "char \<Rightarrow> string \<Rightarrow> string \<Rightarrow> string" where
  "str_replace pat repl s = concat (map (\<lambda>c. if c = pat then repl else [c]) s)"

section \<open>Columns by name\<close>

text \<open>
  \<^verbatim>\<open>df[col]\<close> reads the column named \<open>col\<close> (\<open>None\<close>: no such column), and
  \<^verbatim>\<open>df[col] = s\<close> replaces that column's data in place, or appends a column when the
  name is new. \<^verbatim>\<open>df.columns = names\<close> renames the columns and keeps their data.
\<close>

definition getitem :: "table \<Rightarrow> string \<Rightarrow> series option" where
  "getitem df col = map_of (columns df) col"

definition setitem :: "string \<Rightarrow> series \<Rightarrow> table \<Rightarrow> table" where
  "setitem col s df =
     (if col \<in> set (column_names df)
      then df\<lparr>columns := map (\<lambda>c. if fst c = col then (col, s) else c) (columns df)\<rparr>
      else df\<lparr>columns := columns df @ [(col, s)]\<rparr>)"

definition set_columns :: "string list \<Rightarrow> table \<Rightarrow> table" where
  "set_columns names df = df\<lparr>columns := zip names (map snd (columns df))\<rparr>"

section \<open>Column Normalizer\<close>

text \<open>
  \<^verbatim>\<open>
  def clean_column_names(df):
      df = df.copy()
      df.columns = df.columns.str.lower().str.replace(" ", "_", regex=False)
      df.columns = ["state" if col == "st" else col for col in df.columns]
      return df
  \<close>
  The two assignments are \<open>lower_underscore_names\<close> and \<open>rename_st\<close>.
\<close>

definition lower_underscore_names :: "table \<Rightarrow> table" where
  "lower_underscore_names df =
     set_columns (map (str_replace (CHR '' '') ''_'' \<circ> str_lower) (column_names df)) df"

definition rename_st :: "table \<Rightarrow> table" where
  "rename_st df =
     set_columns (map (\<lambda>col. if col = ''st'' then ''state'' else col) (column_names df)) df"

definition clean_column_names :: "table \<Rightarrow> table" where
  "clean_column_names df0 =
     (let df = df0;
          df = lower_underscore_names df;
          df = rename_st df
      in df)"

section \<open>Value Normalizer\<close>

text \<open>
  \<^verbatim>\<open>Series.replace(dict)\<close> replaces a cell that equals a key of the dictionary by the
  key's value. The keys are texts, so a numeric column and a missing cell are unchanged.
\<close>

definition replace_values :: "(string \<times> string) list \<Rightarrow> series \<Rightarrow> series" where
  "replace_values d s =
     (case s of
        ObjS xs \<Rightarrow> ObjS (map (map_option (\<lambda>v. case map_of d v of None \<Rightarrow> v | Some w \<Rightarrow> w)) xs)
      | _ \<Rightarrow> s)"

text \<open>
  \<^verbatim>\<open>Series.str.replace(pat, repl, regex=False)\<close>: the \<^verbatim>\<open>.str\<close> accessor exists on a text
  column only, and raises AttributeError on a numeric one. Missing cells stay missing.
\<close>

definition series_str_replace :: "char \<Rightarrow> string \<Rightarrow> series \<Rightarrow> error + series" where
  "series_str_replace pat repl s =
     (case s of
        ObjS xs \<Rightarrow> Inr (ObjS (map (map_option (str_replace pat repl)) xs))
      | _ \<Rightarrow> Inl AttributeError)"

text \<open>\<^verbatim>\<open>if col in df.columns: df[col] = df[col].replace(d)\<close>\<close>

definition replace_in_column :: "string \<Rightarrow> (string \<times> string) list \<Rightarrow> table \<Rightarrow> table" where
  "replace_in_column col d df =
     (case getitem df col of
        None \<Rightarrow> df
      | Some s \<Rightarrow> setitem col (replace_values d s) df)"

text \<open>\<^verbatim>\<open>if col in df.columns: df[col] = df[col].str.replace("%", "", regex=False)\<close>\<close>

definition strip_percent :: "string \<Rightarrow> table \<Rightarrow> error + table" where
  "strip_percent col df =
     (case getitem df col of
        None \<Rightarrow> Inr df
      | Some s \<Rightarrow>
          (case series_str_replace (CHR ''%'') [] s of
             Inl e \<Rightarrow> Inl e
           | Inr s' \<Rightarrow> Inr (setitem col s' df)))"

definition gender_map :: "(string \<times> string) list" where
  "gender_map = [(''Male'', ''M''), (''female'', ''F''), (''Femal'', ''F'')]"

definition state_map :: "(string \<times> string) list" where
  "state_map = [(''AZ'', ''Arizona''), (''Cali'', ''California''), (''WA'', ''Washington'')]"

definition education_map :: "(string \<times> string) list" where
  "education_map = [(''Bachelors'', ''Bachelor'')]"

definition vehicle_class_map :: "(string \<times> string) list" where
  "vehicle_class_map =
     [(''Sports Car'', ''Luxury''), (''Luxury SUV'', ''Luxury''), (''Luxury Car'', ''Luxury'')]"

definition clean_invalid_values :: "table \<Rightarrow> error + table" where
  "clean_invalid_values df0 =
     (let df = df0;
          df = replace_in_column ''gender'' gender_map df;
          df = replace_in_column ''state'' state_map df;
          df = replace_in_column ''education'' education_map df
      in case strip_percent ''customer_lifetime_value'' df of
           Inl e \<Rightarrow> Inl e
         | Inr df \<Rightarrow> Inr (replace_in_column ''vehicle_class'' vehicle_class_map df))"

section \<open>Type Formatter\<close>

text \<open>
  \<^verbatim>\<open>pd.to_numeric(s, errors="coerce")\<close> leaves a numeric column as it is. On a text
  column it converts every cell with the library's text-to-number conversion, which is
  not part of the program: it is the parameter \<open>parse\<close>, giving an integer, a
  floating-point number or \<open>None\<close> for a text that is not numeric (coerced to the
  missing marker). The result is an \<^verbatim>\<open>int64\<close> column when every cell is an integer, and a
  \<^verbatim>\<open>float64\<close> column otherwise.
\<close>

datatype pynum = PyInt int | PyFloat rat

type_synonym parser = "string \<Rightarrow> pynum option"

fun num_val :: "pynum \<Rightarrow> rat" where
  "num_val (PyInt i) = of_int i"
| "num_val (PyFloat q) = q"

fun is_int_cell :: "pynum option \<Rightarrow> bool" where
  "is_int_cell (Some (PyInt i)) = True"
| "is_int_cell _ = False"

fun int_of_cell :: "pynum option \<Rightarrow> int" where
  "int_of_cell (Some (PyInt i)) = i"
| "int_of_cell _ = 0"

definition parse_cell :: "parser \<Rightarrow> string option \<Rightarrow> pynum option" where
  "parse_cell parse x = (case x of None \<Rightarrow> None | Some v \<Rightarrow> parse v)"

definition to_numeric :: "parser \<Rightarrow> series \<Rightarrow> series" where
  "to_numeric parse s =
     (case s of
        ObjS xs \<Rightarrow>
          (let ys = map (parse_cell parse) xs
           in if list_all is_int_cell ys then IntS (map int_of_cell ys)
              else FloatS (map (map_option num_val) ys))
      | _ \<Rightarrow> s)"

text \<open>\<^verbatim>\<open>str.split(sep)\<close> for a separator of one character.\<close>

fun split_on :: "char \<Rightarrow> string \<Rightarrow> string list" where
  "split_on sep [] = [[]]"
| "split_on sep (c # cs) =
     (if c = sep then [] # split_on sep cs
      else (case split_on sep cs of
              [] \<Rightarrow> [[c]]
            | p # ps \<Rightarrow> (c # p) # ps))"

text \<open>\<^verbatim>\<open>.str[i]\<close> on the list of parts: the part at \<open>i\<close>, or the missing marker.\<close>

definition str_get :: "nat \<Rightarrow> string list \<Rightarrow> string option" where
  "str_get i ps = (if i < length ps then Some (ps ! i) else None)"

text \<open>\<^verbatim>\<open>astype(str)\<close> on a cell of a text column: the missing marker becomes the text "nan".\<close>

definition astype_str :: "string option \<Rightarrow> string" where
  "astype_str x = (case x of None \<Rightarrow> ''nan'' | Some v \<Rightarrow> v)"

text \<open>
  \<^verbatim>\<open>s.astype(str).str.split("/").str[1]\<close>. The text of a cell of a numeric column is a
  decimal numeral or "nan": it has no "/", the split has one part, and index 1 is missing.
\<close>

definition middle_token :: "series \<Rightarrow> series" where
  "middle_token s =
     (case s of
        ObjS xs \<Rightarrow> ObjS (map (\<lambda>x. str_get 1 (split_on (CHR ''/'') (astype_str x))) xs)
      | IntS xs \<Rightarrow> ObjS (map (\<lambda>x. None) xs)
      | FloatS xs \<Rightarrow> ObjS (map (\<lambda>x. None) xs))"

text \<open>\<^verbatim>\<open>if col in df.columns: df[col] = pd.to_numeric(df[col], errors="coerce")\<close>\<close>

definition column_to_numeric :: "parser \<Rightarrow> string \<Rightarrow> table \<Rightarrow> table" where
  "column_to_numeric parse col df =
     (case getitem df col of
        None \<Rightarrow> df
      | Some s \<Rightarrow> setitem col (to_numeric parse s) df)"

text \<open>
  \<^verbatim>\<open>
  if "number_of_open_complaints" in df.columns:
      df[col] = df[col].astype(str).str.split("/").str[1]
      df[col] = pd.to_numeric(df[col], errors="coerce")
  \<close>
\<close>

definition column_middle_token :: "string \<Rightarrow> table \<Rightarrow> table" where
  "column_middle_token col df =
     (case getitem df col of
        None \<Rightarrow> df
      | Some s \<Rightarrow> setitem col (middle_token s) df)"

definition format_data_types :: "parser \<Rightarrow> table \<Rightarrow> table" where
  "format_data_types parse df0 =
     (let df = df0;
          df = column_to_numeric parse ''customer_lifetime_value'' df;
          df = column_middle_token ''number_of_open_complaints'' df;
          df = column_to_numeric parse ''number_of_open_complaints'' df
      in df)"

section \<open>Null Handler\<close>

text \<open>
  \<^verbatim>\<open>df.select_dtypes(include=["int64", "float64"]).columns\<close> and
  \<^verbatim>\<open>df.select_dtypes(include=["object"]).columns\<close>: the names of the numeric and of the
  text columns, in column order.
\<close>

fun is_numeric :: "series \<Rightarrow> bool" where
  "is_numeric (IntS xs) = True"
| "is_numeric (FloatS xs) = True"
| "is_numeric (ObjS xs) = False"

definition numeric_columns :: "table \<Rightarrow> string list" where
  "numeric_columns df = map fst (filter (\<lambda>c. is_numeric (snd c)) (columns df))"

definition object_columns :: "table \<Rightarrow> string list" where
  "object_columns df = map fst (filter (\<lambda>c. \<not> is_numeric (snd c)) (columns df))"

text \<open>\<^verbatim>\<open>s.isna().any()\<close>\<close>

fun isna_any :: "series \<Rightarrow> bool" where
  "isna_any (IntS xs) = False"
| "isna_any (FloatS xs) = (None \<in> set xs)"
| "isna_any (ObjS xs) = (None \<in> set xs)"

text \<open>
  \<^verbatim>\<open>s.median()\<close> skips the missing cells: the middle of the sorted values, the mean of
  the two middle ones when their number is even, and NaN (\<open>None\<close>) when there is none.
\<close>

definition dropna :: "'a option list \<Rightarrow> 'a list" where
  "dropna xs = concat (map (\<lambda>x. case x of None \<Rightarrow> [] | Some v \<Rightarrow> [v]) xs)"

definition median_of :: "rat list \<Rightarrow> rat option" where
  "median_of vs =
     (let ys = sort vs; n = length ys
      in if n = 0 then None
         else if odd n then Some (ys ! (n div 2))
         else Some ((ys ! (n div 2 - 1) + ys ! (n div 2)) / 2))"

fun median :: "series \<Rightarrow> rat option" where
  "median (FloatS xs) = median_of (dropna xs)"
| "median (IntS xs) = median_of (map of_int xs)"
| "median (ObjS xs) = None"

text \<open>
  \<^verbatim>\<open>s.fillna(v)\<close> with a number: a missing cell of a \<^verbatim>\<open>float64\<close> column takes \<open>v\<close>;
  filling with NaN changes nothing; an \<^verbatim>\<open>int64\<close> column has no missing cell.
\<close>

definition fillna_num :: "rat option \<Rightarrow> series \<Rightarrow> series" where
  "fillna_num v s =
     (case s of
        FloatS xs \<Rightarrow> FloatS (map (\<lambda>x. case x of None \<Rightarrow> v | Some y \<Rightarrow> Some y) xs)
      | _ \<Rightarrow> s)"

text \<open>
  \<^verbatim>\<open>s.mode(dropna=True)\<close>: the most frequent non-missing values, sorted. The program
  takes element \<^verbatim>\<open>[0]\<close> of it, which raises KeyError when the result is empty.
\<close>

definition mode_values :: "string option list \<Rightarrow> string list" where
  "mode_values xs =
     (let vs = dropna xs;
          m = fold max (map (count_list vs) vs) 0
      in sort (remdups (filter (\<lambda>v. count_list vs v = m) vs)))"

fun mode :: "series \<Rightarrow> string list" where
  "mode (ObjS xs) = mode_values xs"
| "mode _ = []"

definition first_label :: "'a list \<Rightarrow> error + 'a" where
  "first_label ms = (case ms of [] \<Rightarrow> Inl KeyError | m # rest \<Rightarrow> Inr m)"

definition fillna_str :: "string \<Rightarrow> series \<Rightarrow> series" where
  "fillna_str v s =
     (case s of
        ObjS xs \<Rightarrow> ObjS (map (\<lambda>x. case x of None \<Rightarrow> Some v | Some y \<Rightarrow> Some y) xs)
      | _ \<Rightarrow> s)"

text \<open>\<^verbatim>\<open>if df[col].isna().any(): df[col] = df[col].fillna(df[col].median())\<close>\<close>

definition fill_numeric :: "string \<Rightarrow> table \<Rightarrow> table" where
  "fill_numeric col df =
     (case getitem df col of
        None \<Rightarrow> df
      | Some s \<Rightarrow> if isna_any s then setitem col (fillna_num (median s) s) df else df)"

text \<open>\<^verbatim>\<open>if df[col].isna().any(): df[col] = df[col].fillna(df[col].mode(dropna=True)[0])\<close>\<close>

definition fill_categorical :: "string \<Rightarrow> table \<Rightarrow> error + table" where
  "fill_categorical col df =
     (case getitem df col of
        None \<Rightarrow> Inr df
      | Some s \<Rightarrow>
          if isna_any s
          then (case first_label (mode s) of
                  Inl e \<Rightarrow> Inl e
                | Inr m \<Rightarrow> Inr (setitem col (fillna_str m s) df))
          else Inr df)"

text \<open>A \<^verbatim>\<open>for\<close> loop whose body may raise: the first exception ends it.\<close>

fun for_each :: "('a \<Rightarrow> 's \<Rightarrow> error + 's) \<Rightarrow> 'a list \<Rightarrow> 's \<Rightarrow> error + 's" where
  "for_each f [] s = Inr s"
| "for_each f (x # xs) s = (case f x s of Inl e \<Rightarrow> Inl e | Inr s' \<Rightarrow> for_each f xs s')"

definition handle_nulls :: "table \<Rightarrow> error + table" where
  "handle_nulls df0 =
     (let df = df0;
          numeric_cols = numeric_columns df;
          df = fold fill_numeric numeric_cols df;
          cat_cols = object_columns df
      in for_each fill_categorical cat_cols df)"

section \<open>Integer Coercer\<close>

text \<open>
  \<^verbatim>\<open>s.round(0)\<close> is numpy's rounding to the nearest integer, a half going to the even
  neighbour. \<^verbatim>\<open>astype(int)\<close> raises on a missing cell and truncates a number towards zero;
  beyond the 64-bit range the conversion is the C cast, which gives the least 64-bit
  integer on x86-64.
\<close>

definition rint :: "rat \<Rightarrow> int" where
  "rint q =
     (let f = \<lfloor>q\<rfloor>; d = q - of_int f
      in if d < 1 / 2 then f
         else if 1 / 2 < d then f + 1
         else if even f then f else f + 1)"

definition series_round :: "series \<Rightarrow> series" where
  "series_round s =
     (case s of
        FloatS xs \<Rightarrow> FloatS (map (map_option (\<lambda>q. of_int (rint q))) xs)
      | _ \<Rightarrow> s)"

definition int64_min :: int where
  "int64_min = - (2 ^ 63)"

definition int64_max :: int where
  "int64_max = 2 ^ 63 - 1"

definition cast_int64 :: "rat \<Rightarrow> int" where
  "cast_int64 q =
     (let n = (if 0 \<le> q then \<lfloor>q\<rfloor> else \<lceil>q\<rceil>)
      in if int64_min \<le> n \<and> n \<le> int64_max then n else int64_min)"

definition astype_int :: "series \<Rightarrow> error + series" where
  "astype_int s =
     (case s of
        IntS xs \<Rightarrow> Inr (IntS xs)
      | FloatS xs \<Rightarrow>
          if None \<in> set xs then Inl IntCastingNaNError
          else Inr (IntS (map cast_int64 (dropna xs)))
      | ObjS xs \<Rightarrow> Inl ValueError)"

text \<open>\<^verbatim>\<open>df[col] = df[col].round(0).astype(int)\<close>\<close>

definition round_to_int :: "string \<Rightarrow> table \<Rightarrow> error + table" where
  "round_to_int col df =
     (case getitem df col of
        None \<Rightarrow> Inr df
      | Some s \<Rightarrow>
          (case astype_int (series_round s) of
             Inl e \<Rightarrow> Inl e
           | Inr s' \<Rightarrow> Inr (setitem col s' df)))"

definition convert_numeric_to_int :: "table \<Rightarrow> error + table" where
  "convert_numeric_to_int df0 =
     (let df = df0;
          numeric_cols = numeric_columns df
      in for_each round_to_int numeric_cols df)"

section \<open>Deduplicator\<close>

text \<open>
  A row is the list of its cells, one per column; a cell carries its column's type, and
  two missing markers are equal, as they are for \<^verbatim>\<open>duplicated\<close>.
\<close>

datatype cell = IntC int | FloatC "rat option" | ObjC "string option"

fun cells :: "series \<Rightarrow> cell list" where
  "cells (IntS xs) = map IntC xs"
| "cells (FloatS xs) = map FloatC xs"
| "cells (ObjS xs) = map ObjC xs"

definition row_at :: "table \<Rightarrow> nat \<Rightarrow> cell list" where
  "row_at df i = map (\<lambda>c. cells (snd c) ! i) (columns df)"

definition rows :: "table \<Rightarrow> cell list list" where
  "rows df = map (row_at df) [0..<length (index df)]"

text \<open>\<^verbatim>\<open>df.empty\<close>: no row or no column.\<close>

definition df_empty :: "table \<Rightarrow> bool" where
  "df_empty df \<longleftrightarrow> index df = [] \<or> columns df = []"

text \<open>
  \<^verbatim>\<open>df.duplicated(keep=keep)\<close> marks, for each row, whether an equal row stands before
  it (\<^verbatim>\<open>"first"\<close>) or after it (\<^verbatim>\<open>"last"\<close>); any other text for \<open>keep\<close> raises
  ValueError.
\<close>

definition duplicated :: "string \<Rightarrow> table \<Rightarrow> error + bool list" where
  "duplicated keep df =
     (let rs = rows df
      in if df_empty df then Inr []
         else if keep = ''first'' then Inr (map (\<lambda>i. rs ! i \<in> set (take i rs)) [0..<length rs])
         else if keep = ''last'' then Inr (map (\<lambda>i. rs ! i \<in> set (drop (Suc i) rs)) [0..<length rs])
         else Inl ValueError)"

text \<open>Selecting rows by position keeps their labels.\<close>

fun series_take :: "nat list \<Rightarrow> series \<Rightarrow> series" where
  "series_take ks (IntS xs) = IntS (map ((!) xs) ks)"
| "series_take ks (FloatS xs) = FloatS (map ((!) xs) ks)"
| "series_take ks (ObjS xs) = ObjS (map ((!) xs) ks)"

definition take_rows :: "nat list \<Rightarrow> table \<Rightarrow> table" where
  "take_rows ks df =
     \<lparr>index = map ((!) (index df)) ks,
      columns = map (\<lambda>c. (fst c, series_take ks (snd c))) (columns df)\<rparr>"

text \<open>
  \<^verbatim>\<open>df.drop_duplicates(keep=keep)\<close> returns an empty table as it is, before it looks at
  \<open>keep\<close>; otherwise it keeps the rows that \<^verbatim>\<open>duplicated\<close> does not mark.
\<close>

definition drop_duplicates :: "string \<Rightarrow> table \<Rightarrow> error + table" where
  "drop_duplicates keep df =
     (if df_empty df then Inr df
      else (case duplicated keep df of
              Inl e \<Rightarrow> Inl e
            | Inr dup \<Rightarrow> Inr (take_rows (filter (\<lambda>i. \<not> dup ! i) [0..<length (index df)]) df)))"

text \<open>\<^verbatim>\<open>df.reset_index(drop=True)\<close>: the row labels become 0, 1, 2, ...\<close>

definition reset_index :: "table \<Rightarrow> table" where
  "reset_index df = df\<lparr>index := map int [0..<length (index df)]\<rparr>"

definition handle_duplicates :: "table \<Rightarrow> string \<Rightarrow> error + table" where
  "handle_duplicates df0 keep =
     (let df = df0
      in case drop_duplicates keep df of
           Inl e \<Rightarrow> Inl e
         | Inr df \<Rightarrow> Inr (reset_index df))"

section \<open>Loader, Persister and driver\<close>

text \<open>
  The file system maps a path to the table that \<^verbatim>\<open>pd.read_csv\<close> reads from the file
  there. \<^verbatim>\<open>pd.read_csv\<close> takes a path (FileNotFoundError when nothing is there); given
  an object that is neither a path nor a buffer, such as a module, it raises ValueError.
  \<^verbatim>\<open>df.to_csv(path, index=False)\<close> writes the columns without the row labels, so the table
  read back has fresh labels.
\<close>

datatype pyobj = PyStr string | PyModule string

type_synonym filesystem = "string \<Rightarrow> table option"

definition read_csv :: "filesystem \<Rightarrow> pyobj \<Rightarrow> error + table" where
  "read_csv fs arg =
     (case arg of
        PyStr path \<Rightarrow> (case fs path of None \<Rightarrow> Inl FileNotFoundError | Some df \<Rightarrow> Inr df)
      | PyModule m \<Rightarrow> Inl ValueError)"

definition load_data :: "filesystem \<Rightarrow> pyobj \<Rightarrow> error + table" where
  "load_data fs csv = read_csv fs csv"

definition save_cleaned_data :: "table \<Rightarrow> string \<Rightarrow> filesystem \<Rightarrow> filesystem" where
  "save_cleaned_data df output_path fs = fs(output_path \<mapsto> reset_index df)"

text \<open>
  \<^verbatim>\<open>
  import csv
  def main(url, output_path="combined_data.csv", keep_duplicates="first"):
      df = load_data(csv)
      df = clean_column_names(df)
      df = clean_invalid_values(df)
      df = format_data_types(df)
      df = handle_nulls(df)
      df = convert_numeric_to_int(df)
      df = handle_duplicates(df, keep=keep_duplicates)
      save_cleaned_data(df, output_path)
      return df
  \<close>
  In \<^verbatim>\<open>main\<close> the name \<^verbatim>\<open>csv\<close> is the module imported at the top of the file. The
  result is the file system after the call and the exception raised or the table returned.
\<close>

definition pipeline :: "parser \<Rightarrow> string \<Rightarrow> table \<Rightarrow> error + table" where
  "pipeline parse keep_duplicates df =
     (let df = clean_column_names df
      in case clean_invalid_values df of
           Inl e \<Rightarrow> Inl e
         | Inr df \<Rightarrow>
             (let df = format_data_types parse df
              in case handle_nulls df of
                   Inl e \<Rightarrow> Inl e
                 | Inr df \<Rightarrow>
                     (case convert_numeric_to_int df of
                        Inl e \<Rightarrow> Inl e
                      | Inr df \<Rightarrow> handle_duplicates df keep_duplicates)))"

definition main ::
  "parser \<Rightarrow> filesystem \<Rightarrow> string \<Rightarrow> string \<Rightarrow> string \<Rightarrow> filesystem \<times> (error + table)" where
  "main parse fs url output_path keep_duplicates =
     (case load_data fs (PyModule ''csv'') of
        Inl e \<Rightarrow> (fs, Inl e)
      | Inr df \<Rightarrow>
          (case pipeline parse keep_duplicates df of
             Inl e \<Rightarrow> (fs, Inl e)
           | Inr df \<Rightarrow> (save_cleaned_data df output_path fs, Inr df)))"

section \<open>A text-to-number conversion for unsigned decimals\<close>

text \<open>
  The library's conversion reads an unsigned decimal numeral such as "12" as the integer
  and one with a fraction such as "10.50" as the floating-point number. \<open>parse_decimal\<close>
  is that part of it, to run the model on concrete tables; every other text is taken
  as not numeric.
\<close>

definition digit_of :: "char \<Rightarrow> nat option" where
  "digit_of c =
     (let n = (of_char c :: nat) in if 48 \<le> n \<and> n \<le> 57 then Some (n - 48) else None)"

fun digits_of :: "nat \<Rightarrow> string \<Rightarrow> nat option" where
  "digits_of acc [] = Some acc"
| "digits_of acc (c # cs) =
     (case digit_of c of None \<Rightarrow> None | Some d \<Rightarrow> digits_of (10 * acc + d) cs)"

definition numeral_of :: "string \<Rightarrow> nat option" where
  "numeral_of s = (if s = [] then None else digits_of 0 s)"

definition parse_decimal :: parser where
  "parse_decimal s =
     (case split_on (CHR ''.'') s of
        [a] \<Rightarrow> map_option (\<lambda>n. PyInt (int n)) (numeral_of a)
      | [a, b] \<Rightarrow>
          (case (numeral_of a, numeral_of b) of
             (Some n, Some m) \<Rightarrow> Some (PyFloat (of_nat n + of_nat m / 10 ^ length b))
           | _ \<Rightarrow> None)
      | _ \<Rightarrow> None)"

section \<open>The steps on a store of tables\<close>

text \<open>
  In Python a DataFrame is an object, and a function receives a reference to it. To say
  what a step does to the table it is given, the steps are also modelled on a store:
  the list of the tables that exist, a reference being a position in it.
  \<^verbatim>\<open>df.copy()\<close> allocates a new table with the same contents, and an assignment
  \<^verbatim>\<open>df.columns = ...\<close> or \<^verbatim>\<open>df[col] = ...\<close> updates the table that \<^verbatim>\<open>df\<close> refers to, in
  place. \<open>exec df stmts\<close> runs such assignments in order on the table at \<open>df\<close> and
  stops at the first exception; \<^verbatim>\<open>drop_duplicates\<close> and \<^verbatim>\<open>reset_index\<close> each return
  a new table. The result is the store after the call and the exception or the
  reference returned.
\<close>

type_synonym ref = nat

type_synonym heap = "table list"

definition df_copy :: "ref \<Rightarrow> heap \<Rightarrow> heap \<times> ref" where
  "df_copy r h = (h @ [h ! r], length h)"

definition alloc :: "table \<Rightarrow> heap \<Rightarrow> heap \<times> ref" where
  "alloc t h = (h @ [t], length h)"

fun exec :: "ref \<Rightarrow> (table \<Rightarrow> error + table) list \<Rightarrow> heap \<Rightarrow> heap \<times> (error + ref)" where
  "exec df [] h = (h, Inr df)"
| "exec df (stmt # stmts) h =
     (case stmt (h ! df) of
        Inl e \<Rightarrow> (h, Inl e)
      | Inr t \<Rightarrow> exec df stmts (h[df := t]))"

definition clean_column_names_h :: "ref \<Rightarrow> heap \<Rightarrow> heap \<times> (error + ref)" where
  "clean_column_names_h df0 h0 =
     (let (h, df) = df_copy df0 h0
      in exec df [Inr \<circ> lower_underscore_names, Inr \<circ> rename_st] h)"

definition clean_invalid_values_h :: "ref \<Rightarrow> heap \<Rightarrow> heap \<times> (error + ref)" where
  "clean_invalid_values_h df0 h0 =
     (let (h, df) = df_copy df0 h0
      in exec df
           [Inr \<circ> replace_in_column ''gender'' gender_map,
            Inr \<circ> replace_in_column ''state'' state_map,
            Inr \<circ> replace_in_column ''education'' education_map,
            strip_percent ''customer_lifetime_value'',
            Inr \<circ> replace_in_column ''vehicle_class'' vehicle_class_map] h)"

definition format_data_types_h :: "parser \<Rightarrow> ref \<Rightarrow> heap \<Rightarrow> heap \<times> (error + ref)" where
  "format_data_types_h parse df0 h0 =
     (let (h, df) = df_copy df0 h0
      in exec df
           [Inr \<circ> column_to_numeric parse ''customer_lifetime_value'',
            Inr \<circ> column_middle_token ''number_of_open_complaints'',
            Inr \<circ> column_to_numeric parse ''number_of_open_complaints''] h)"

definition handle_nulls_h :: "ref \<Rightarrow> heap \<Rightarrow> heap \<times> (error + ref)" where
  "handle_nulls_h df0 h0 =
     (let (h, df) = df_copy df0 h0;
          numeric_cols = numeric_columns (h ! df);
          (h, r) = exec df (map (\<lambda>col. Inr \<circ> fill_numeric col) numeric_cols) h
      in case r of
           Inl e \<Rightarrow> (h, Inl e)
         | Inr df \<Rightarrow>
             (let cat_cols = object_columns (h ! df)
              in exec df (map fill_categorical cat_cols) h))"

definition convert_numeric_to_int_h :: "ref \<Rightarrow> heap \<Rightarrow> heap \<times> (error + ref)" where
  "convert_numeric_to_int_h df0 h0 =
     (let (h, df) = df_copy df0 h0;
          numeric_cols = numeric_columns (h ! df)
      in exec df (map round_to_int numeric_cols) h)"

definition handle_duplicates_h :: "ref \<Rightarrow> string \<Rightarrow> heap \<Rightarrow> heap \<times> (error + ref)" where
  "handle_duplicates_h df0 keep h0 =
     (let (h, df) = df_copy df0 h0
      in case drop_duplicates keep (h ! df) of
           Inl e \<Rightarrow> (h, Inl e)
         | Inr t \<Rightarrow>
             (let (h, df) = alloc t h;
                  (h, df) = alloc (reset_index (h ! df)) h
              in (h, Inr df)))"

text \<open>
  A call leaves its input alone when every table of the store before the call, the
  argument among them, is still there unchanged after it, and the reference it returns
  is to a table allocated by the call.
\<close>

definition leaves_input :: "heap \<Rightarrow> heap \<times> (error + ref) \<Rightarrow> bool" where
  "leaves_input h res \<longleftrightarrow>
     take (length h) (fst res) = h \<and>
     (case snd res of Inl e \<Rightarrow> True | Inr r \<Rightarrow> length h \<le> r \<and> r < length (fst res))"

section \<open>Vocabulary of the properties\<close>

text \<open>Updating the data of the column named \<open>col\<close>, when there is one.\<close>

definition update_column :: "string \<Rightarrow> (series \<Rightarrow> series) \<Rightarrow> table \<Rightarrow> table" where
  "update_column col g df =
     df\<lparr>columns := map (\<lambda>c. if fst c = col then (fst c, g (snd c)) else c) (columns df)\<rparr>"

text \<open>The cells of a column as numbers: \<open>None\<close> for a missing marker and for a text.\<close>

fun num_cells :: "series \<Rightarrow> rat option list" where
  "num_cells (IntS xs) = map (\<lambda>i. Some (of_int i)) xs"
| "num_cells (FloatS xs) = xs"
| "num_cells (ObjS xs) = map (\<lambda>x. None) xs"

text \<open>A table has a missing marker when one of its columns has.\<close>

definition has_missing :: "table \<Rightarrow> bool" where
  "has_missing df \<longleftrightarrow> list_ex (\<lambda>c. isna_any (snd c)) (columns df)"

text \<open>
  The name a column gets from the first assignment of \<^verbatim>\<open>clean_column_names\<close>, and
  the name it has in the end.
\<close>

definition lower_underscore :: "string \<Rightarrow> string" where
  "lower_underscore n = str_replace (CHR '' '') ''_'' (str_lower n)"

definition final_name :: "string \<Rightarrow> string" where
  "final_name n = (if lower_underscore n = ''st'' then ''state'' else lower_underscore n)"

definition update_column_e :: "string \<Rightarrow> (series \<Rightarrow> error + series) \<Rightarrow> table \<Rightarrow> error + table" where
  "update_column_e col g df =
     (case getitem df col of
        None \<Rightarrow> Inr df
      | Some s \<Rightarrow> (case g s of Inl e \<Rightarrow> Inl e | Inr s' \<Rightarrow> Inr (update_column col (\<lambda>x. s') df)))"

definition fill_number :: "series \<Rightarrow> series" where
  "fill_number s = (if isna_any s then fillna_num (median s) s else s)"

definition fill_text :: "series \<Rightarrow> error + series" where
  "fill_text s =
     (if isna_any s
      then (case first_label (mode s) of Inl e \<Rightarrow> Inl e | Inr m \<Rightarrow> Inr (fillna_str m s))
      else Inr s)"

definition all_missing_text :: "series \<Rightarrow> bool" where
  "all_missing_text s = (case s of ObjS xs \<Rightarrow> xs \<noteq> [] \<and> dropna xs = [] | _ \<Rightarrow> False)"

definition all_missing_numbers :: "series \<Rightarrow> bool" where
  "all_missing_numbers s = (case s of FloatS xs \<Rightarrow> dropna xs = [] | _ \<Rightarrow> False)"

definition filled_from :: "series \<Rightarrow> series \<Rightarrow> bool" where
  "filled_from s s' =
     (case s of
        IntS xs \<Rightarrow> s' = IntS xs
      | FloatS xs \<Rightarrow>
          s' = FloatS (map (\<lambda>x. case x of None \<Rightarrow> median_of (dropna xs) | Some y \<Rightarrow> Some y) xs)
      | ObjS xs \<Rightarrow>
          (case mode_values xs of
             [] \<Rightarrow> s' = ObjS xs \<and> xs = []
           | m # rest \<Rightarrow> s' = ObjS (map (\<lambda>x. case x of None \<Rightarrow> Some m | Some y \<Rightarrow> Some y) xs)))"

definition example_nulls :: table where
  "example_nulls =
     \<lparr>index = [0, 1, 2, 3],
      columns = [(''income'', FloatS [Some 10, Some 20, None, Some 40]),
                 (''gender'', ObjS [Some ''M'', Some ''F'', None, Some ''F'']),
                 (''children'', IntS [0, 2, 1, 0])]\<rparr>"

text \<open>
  The column that \<open>convert_numeric_to_int\<close> makes of a column without missing marker,
  and the numeric columns that have one.
\<close>

definition rounded_from :: "series \<Rightarrow> series \<Rightarrow> bool" where
  "rounded_from s s' =
     (case s of
        IntS xs \<Rightarrow> s' = IntS xs
      | FloatS xs \<Rightarrow> s' = IntS (map (\<lambda>q. cast_int64 (of_int (rint q))) (dropna xs))
      | ObjS xs \<Rightarrow> s' = ObjS xs)"

definition missing_numbers :: "series \<Rightarrow> bool" where
  "missing_numbers s \<longleftrightarrow> is_numeric s \<and> isna_any s"

definition example_numbers :: table where
  "example_numbers =
     \<lparr>index = [0, 1, 2, 3],
      columns = [(''income'', FloatS [Some (5 / 2), Some (7 / 2), Some (- (5 / 2)), Some (13 / 5)]),
                 (''children'', IntS [0, 2, 1, 0]),
                 (''gender'', ObjS [Some ''M'', None, Some ''F'', Some ''F''])]\<rparr>"

text \<open>
  The positions of the rows that \<^verbatim>\<open>drop_duplicates\<close> keeps: the first, or the last,
  occurrence of each row.
\<close>

definition first_occurrence :: "'a list \<Rightarrow> nat \<Rightarrow> bool" where
  "first_occurrence rs i \<longleftrightarrow> rs ! i \<notin> set (take i rs)"

definition last_occurrence :: "'a list \<Rightarrow> nat \<Rightarrow> bool" where
  "last_occurrence rs i \<longleftrightarrow> rs ! i \<notin> set (drop (Suc i) rs)"

definition example_duplicates :: table where
  "example_duplicates =
     \<lparr>index = [0, 1, 2],
      columns = [(''state'', ObjS [Some ''Arizona'', Some ''Arizona'', Some ''Oregon'']),
                 (''income'', IntS [10, 10, 10])]\<rparr>"

section \<open>Example tables\<close>

definition example_states :: table where
  "example_states = \<lparr>index = [0, 1], columns = [(''ST'', ObjS [Some ''AZ'', None])]\<rparr>"

definition example_numeric_clv :: table where
  "example_numeric_clv =
     \<lparr>index = [0, 1],
      columns = [(''gender'', ObjS [Some ''Male'', Some ''F'']),
                 (''customer_lifetime_value'', FloatS [Some (15 / 2), None])]\<rparr>"

definition example_missing_text :: table where
  "example_missing_text =
     \<lparr>index = [0, 1],
      columns = [(''income'', FloatS [Some 10, None]), (''gender'', ObjS [None, None])]\<rparr>"

definition example_missing_numbers :: table where
  "example_missing_numbers =
     \<lparr>index = [0, 1],
      columns = [(''gender'', ObjS [Some ''F'', None]), (''income'', FloatS [None, None])]\<rparr>"

definition example_header_only :: table where
  "example_header_only = \<lparr>index = [], columns = [(''gender'', ObjS [])]\<rparr>"

section \<open>Properties\<close>

subsection \<open>Columns by name, on tables with distinct names\<close>

lemma getitem_None_iff: "getitem df col = None \<longleftrightarrow> col \<notin> set (column_names df)"
  by (simp add: getitem_def column_names_def map_of_eq_None_iff)

lemma getitem_Some_snd:
  assumes "distinct (column_names df)" and "c \<in> set (columns df)"
  shows "getitem df (fst c) = Some (snd c)"
  using assms by (simp add: getitem_def column_names_def)

lemma update_column_id:
  "col \<notin> set (column_names df) \<Longrightarrow> update_column col g df = df"
proof -
  assume a: "col \<notin> set (column_names df)"
  have "map (\<lambda>c. if fst c = col then (fst c, g (snd c)) else c) (columns df) = columns df"
    using a by (intro map_idI) (auto simp: column_names_def)
  then show ?thesis by (simp add: update_column_def)
qed

lemma setitem_as_update:
  assumes d: "distinct (column_names df)" and g: "getitem df col = Some s"
  shows "setitem col s' df = update_column col (\<lambda>x. s') df"
proof -
  from g have "col \<in> set (column_names df)"
    using getitem_None_iff [of df col] by auto
  then show ?thesis
    by (simp add: setitem_def update_column_def cong: map_cong)
qed

lemma update_column_const:
  assumes d: "distinct (column_names df)" and g: "getitem df col = Some s"
  shows "update_column col (\<lambda>x. g' s) df = update_column col g' df"
proof -
  have "map (\<lambda>c. if fst c = col then (fst c, g' s) else c) (columns df)
      = map (\<lambda>c. if fst c = col then (fst c, g' (snd c)) else c) (columns df)"
  proof (rule map_cong [OF refl])
    fix c assume c: "c \<in> set (columns df)"
    show "(if fst c = col then (fst c, g' s) else c) = (if fst c = col then (fst c, g' (snd c)) else c)"
      using getitem_Some_snd [OF d c] g by auto
  qed
  then show ?thesis by (simp add: update_column_def)
qed

lemma upd_case_eq:
  assumes d: "distinct (column_names df)"
  shows "(case getitem df col of None \<Rightarrow> df | Some s \<Rightarrow> setitem col (g s) df) = update_column col g df"
proof (cases "getitem df col")
  case None
  then have "col \<notin> set (column_names df)" by (simp add: getitem_None_iff)
  then have "update_column col g df = df" by (rule update_column_id)
  with None show ?thesis by simp
next
  case (Some s)
  then show ?thesis
    using setitem_as_update [OF d Some, of "g s"] update_column_const [OF d Some, of g] by simp
qed

lemma column_names_update_column [simp]: "column_names (update_column col g df) = column_names df"
  by (simp add: update_column_def column_names_def comp_def if_distrib cong: if_cong)

lemma index_update_column [simp]: "index (update_column col g df) = index df"
  by (simp add: update_column_def)

lemma exec_append:
  "\<exists>t'. exec (length h) stmts (h @ [t]) = (h @ [t'], map_sum id (\<lambda>u. length h) (for_each (\<lambda>stmt. stmt) stmts t))
       \<and> (\<forall>u. for_each (\<lambda>stmt. stmt) stmts t = Inr u \<longrightarrow> t' = u)"
proof (induction stmts arbitrary: t)
  case Nil
  then show ?case by simp
next
  case (Cons stmt stmts)
  show ?case
  proof (cases "stmt t")
    case (Inl e)
    then show ?thesis by simp
  next
    case (Inr t1)
    from Cons.IH [of t1] Inr show ?thesis by simp
  qed
qed

subsection \<open>Column Normalizer\<close>

lemma char_lower_idem: "char_lower (char_lower c) = char_lower c"
  by (auto simp: char_lower_def Let_def)

lemma char_lower_space: "char_lower c = CHR '' '' \<longleftrightarrow> c = CHR '' ''"
proof
  assume "c = CHR '' ''"
  then show "char_lower c = CHR '' ''" by (simp add: char_lower_def)
next
  assume a: "char_lower c = CHR '' ''"
  show "c = CHR '' ''"
  proof (cases "65 \<le> (of_char c :: nat) \<and> (of_char c :: nat) \<le> 90")
    case True
    then have "(of_char (char_lower c) :: nat) = of_char c + 32"
      by (simp add: char_lower_def Let_def)
    with a True show ?thesis by simp
  next
    case False
    with a show ?thesis by (simp add: char_lower_def Let_def)
  qed
qed

lemma str_replace_space: "str_replace (CHR '' '') ''_'' s = map (\<lambda>c. if c = CHR '' '' then CHR ''_'' else c) s"
  by (induction s) (simp_all add: str_replace_def)

lemma lower_underscore_map:
  "lower_underscore n = map (\<lambda>c. if c = CHR '' '' then CHR ''_'' else char_lower c) n"
  by (simp add: lower_underscore_def str_replace_space str_lower_def char_lower_space)

lemma lower_underscore_char_idem:
  "(let d = (if c = CHR '' '' then CHR ''_'' else char_lower c)
    in if d = CHR '' '' then CHR ''_'' else char_lower d)
   = (if c = CHR '' '' then CHR ''_'' else char_lower c)"
proof (cases "c = CHR '' ''")
  case True
  then show ?thesis by (simp add: char_lower_def)
next
  case False
  then show ?thesis by (simp add: char_lower_space char_lower_idem)
qed

lemma lower_underscore_idem: "lower_underscore (lower_underscore n) = lower_underscore n"
  using lower_underscore_char_idem by (simp add: lower_underscore_map Let_def)

lemma lower_underscore_state: "lower_underscore ''state'' = ''state''"
  by code_simp

lemma final_name_idem: "final_name (final_name n) = final_name n"
  by (simp add: final_name_def lower_underscore_idem lower_underscore_state)

lemma set_columns_map:
  "set_columns (map f (column_names df)) df = df\<lparr>columns := map (\<lambda>c. (f (fst c), snd c)) (columns df)\<rparr>"
proof -
  have "zip (map f (map fst cs)) (map snd cs) = map (\<lambda>c. (f (fst c), snd c)) cs" for cs :: "column list"
    by (induction cs) simp_all
  then show ?thesis by (simp add: set_columns_def column_names_def)
qed

lemma clean_column_names_eq:
  "clean_column_names df = df\<lparr>columns := map (\<lambda>c. (final_name (fst c), snd c)) (columns df)\<rparr>"
proof -
  have 1: "lower_underscore_names df = df\<lparr>columns := map (\<lambda>c. (lower_underscore (fst c), snd c)) (columns df)\<rparr>"
    by (simp add: lower_underscore_names_def set_columns_map lower_underscore_def)
  have 2: "rename_st t = t\<lparr>columns := map (\<lambda>c. (if fst c = ''st'' then ''state'' else fst c, snd c)) (columns t)\<rparr>" for t
    by (simp add: rename_st_def set_columns_map)
  show ?thesis
    by (simp add: clean_column_names_def 1 2 comp_def final_name_def)
qed

text \<open>
  Claim C7. The Column Normalizer is idempotent: applying \<open>clean_column_names\<close> to its
  own result gives that result again, for every table.
\<close>

theorem clean_column_names_idempotent:
  "clean_column_names (clean_column_names df) = clean_column_names df"
  by (simp add: clean_column_names_eq comp_def final_name_idem)

lemma lower_underscore_status: "lower_underscore ''status'' = ''status''"
  by code_simp

text \<open>
  Claim C4. \<open>clean_column_names\<close> keeps the rows, the data and the number of the
  columns. A column's final name differs from its lowercased, underscored name exactly
  when that name is \<open>st\<close>, and then the final name is \<open>state\<close>; a column named
  \<open>status\<close> is still named \<open>status\<close>.
\<close>

theorem clean_column_names_state_iff_st:
  "i < length (columns df) \<Longrightarrow>
     length (columns (clean_column_names df)) = length (columns df) \<and>
     index (clean_column_names df) = index df \<and>
     snd (columns (clean_column_names df) ! i) = snd (columns df ! i) \<and>
     (let old = str_replace (CHR '' '') ''_'' (str_lower (fst (columns df ! i)));
          new = fst (columns (clean_column_names df) ! i)
      in (new \<noteq> old \<longleftrightarrow> old = ''st'') \<and>
         (old = ''st'' \<longrightarrow> new = ''state'') \<and>
         (fst (columns df ! i) = ''status'' \<longrightarrow> new = ''status''))"
  using lower_underscore_status
  by (auto simp add: clean_column_names_eq final_name_def lower_underscore_def Let_def)

text \<open>The theorem at the second column of a table with columns ST, status and Last State.\<close>

theorem clean_column_names_state_iff_st_witness:
  "clean_column_names \<lparr>index = [0], columns = [(''ST'', ObjS [Some ''AZ'']), (''status'', ObjS [Some ''ok'']), (''Last State'', IntS [1])]\<rparr>
     = \<lparr>index = [0], columns = [(''state'', ObjS [Some ''AZ'']), (''status'', ObjS [Some ''ok'']), (''last_state'', IntS [1])]\<rparr>
   \<and> fst (columns (clean_column_names \<lparr>index = [0], columns = [(''ST'', ObjS [Some ''AZ'']), (''status'', ObjS [Some ''ok'']), (''Last State'', IntS [1])]\<rparr>) ! 1) = ''status''"
  using clean_column_names_state_iff_st [of 1 "\<lparr>index = [0], columns = [(''ST'', ObjS [Some ''AZ'']), (''status'', ObjS [Some ''ok'']), (''Last State'', IntS [1])]\<rparr>"]
  by code_simp

subsection \<open>The steps on the store\<close>

lemma for_each_stmts_fold:
  "for_each (\<lambda>stmt. stmt) (map (\<lambda>c. Inr \<circ> g c) cs) t = Inr (fold g cs t)"
  by (induction cs arbitrary: t) simp_all

lemma for_each_stmts_map:
  "for_each (\<lambda>stmt. stmt) (map f cs) t = for_each f cs t"
  by (induction cs arbitrary: t) (simp_all split: sum.splits)

lemma exec_fold_append:
  "exec (length h) (map (\<lambda>c. Inr \<circ> g c) cs) (h @ [t]) = (h @ [fold g cs t], Inr (length h))"
  by (induction cs arbitrary: t) simp_all

lemma clean_column_names_h_eq:
  "clean_column_names_h df0 h = (h @ [clean_column_names (h ! df0)], Inr (length h))"
  by (simp add: clean_column_names_h_def df_copy_def clean_column_names_def)

lemma format_data_types_h_eq:
  "format_data_types_h parse df0 h = (h @ [format_data_types parse (h ! df0)], Inr (length h))"
  by (simp add: format_data_types_h_def df_copy_def format_data_types_def)

lemma clean_invalid_values_h_eq:
  "\<exists>t'. clean_invalid_values_h df0 h =
          (h @ [t'], map_sum id (\<lambda>u. length h) (clean_invalid_values (h ! df0)))
        \<and> (\<forall>u. clean_invalid_values (h ! df0) = Inr u \<longrightarrow> t' = u)"
proof -
  let ?stmts = "[Inr \<circ> replace_in_column ''gender'' gender_map,
            Inr \<circ> replace_in_column ''state'' state_map,
            Inr \<circ> replace_in_column ''education'' education_map,
            strip_percent ''customer_lifetime_value'',
            Inr \<circ> replace_in_column ''vehicle_class'' vehicle_class_map]"
  have "for_each (\<lambda>stmt. stmt) ?stmts (h ! df0) = clean_invalid_values (h ! df0)"
    by (simp add: clean_invalid_values_def Let_def split: sum.splits)
  with exec_append [of h ?stmts "h ! df0"] show ?thesis
    by (simp add: clean_invalid_values_h_def df_copy_def del: exec.simps for_each.simps)
qed

lemma handle_nulls_h_eq:
  "\<exists>t'. handle_nulls_h df0 h = (h @ [t'], map_sum id (\<lambda>u. length h) (handle_nulls (h ! df0)))
        \<and> (\<forall>u. handle_nulls (h ! df0) = Inr u \<longrightarrow> t' = u)"
proof -
  let ?t1 = "fold fill_numeric (numeric_columns (h ! df0)) (h ! df0)"
  have "for_each (\<lambda>stmt. stmt) (map fill_categorical (object_columns ?t1)) ?t1 = handle_nulls (h ! df0)"
    by (simp add: handle_nulls_def for_each_stmts_map Let_def)
  with exec_append [of h "map fill_categorical (object_columns ?t1)" ?t1] show ?thesis
    by (simp add: handle_nulls_h_def df_copy_def exec_fold_append)
qed

lemma convert_numeric_to_int_h_eq:
  "\<exists>t'. convert_numeric_to_int_h df0 h =
          (h @ [t'], map_sum id (\<lambda>u. length h) (convert_numeric_to_int (h ! df0)))
        \<and> (\<forall>u. convert_numeric_to_int (h ! df0) = Inr u \<longrightarrow> t' = u)"
proof -
  have "for_each (\<lambda>stmt. stmt) (map round_to_int (numeric_columns (h ! df0))) (h ! df0)
        = convert_numeric_to_int (h ! df0)"
    by (simp add: convert_numeric_to_int_def for_each_stmts_map Let_def)
  with exec_append [of h "map round_to_int (numeric_columns (h ! df0))" "h ! df0"] show ?thesis
    by (simp add: convert_numeric_to_int_h_def df_copy_def)
qed

lemma handle_duplicates_h_eq:
  "\<exists>ts. handle_duplicates_h df0 keep h =
     (h @ ts, map_sum id (\<lambda>u. length h + 2) (handle_duplicates (h ! df0) keep))
   \<and> (\<forall>u. handle_duplicates (h ! df0) keep = Inr u \<longrightarrow> length ts = 3 \<and> ts ! 2 = u)"
  by (cases "drop_duplicates keep (h ! df0)")
     (simp_all add: handle_duplicates_h_def handle_duplicates_def df_copy_def alloc_def nth_append)

text \<open>
  Claim C8. No step mutates its input: for every store and every reference \<open>df0\<close> to
  a table in it, each of the six steps leaves every table of the store, the one at
  \<open>df0\<close> among them, as it was, and the reference it returns is to a table that the
  call allocated.
\<close>

theorem steps_leave_input_unchanged:
  "df0 < length h \<Longrightarrow>
     leaves_input h (clean_column_names_h df0 h) \<and>
     leaves_input h (clean_invalid_values_h df0 h) \<and>
     leaves_input h (format_data_types_h parse df0 h) \<and>
     leaves_input h (handle_nulls_h df0 h) \<and>
     leaves_input h (convert_numeric_to_int_h df0 h) \<and>
     leaves_input h (handle_duplicates_h df0 keep h)"
proof -
  have 1: "leaves_input h (clean_column_names_h df0 h)"
    by (simp add: clean_column_names_h_eq leaves_input_def)
  have 2: "leaves_input h (clean_invalid_values_h df0 h)"
    using clean_invalid_values_h_eq [of df0 h]
    by (cases "clean_invalid_values (h ! df0)") (auto simp: leaves_input_def)
  have 3: "leaves_input h (format_data_types_h parse df0 h)"
    by (simp add: format_data_types_h_eq leaves_input_def)
  have 4: "leaves_input h (handle_nulls_h df0 h)"
    using handle_nulls_h_eq [of df0 h]
    by (cases "handle_nulls (h ! df0)") (auto simp: leaves_input_def)
  have 5: "leaves_input h (convert_numeric_to_int_h df0 h)"
    using convert_numeric_to_int_h_eq [of df0 h]
    by (cases "convert_numeric_to_int (h ! df0)") (auto simp: leaves_input_def)
  have 6: "leaves_input h (handle_duplicates_h df0 keep h)"
    using handle_duplicates_h_eq [of df0 keep h]
    by (cases "handle_duplicates (h ! df0) keep") (auto simp: leaves_input_def)
  from 1 2 3 4 5 6 show ?thesis by simp
qed

text \<open>The theorem on a store that holds one table.\<close>

theorem steps_leave_input_unchanged_witness:
  "(0::nat) < length [example_states] \<and>
   leaves_input [example_states] (clean_column_names_h 0 [example_states]) \<and>
   leaves_input [example_states] (clean_invalid_values_h 0 [example_states]) \<and>
   leaves_input [example_states] (format_data_types_h parse_decimal 0 [example_states]) \<and>
   leaves_input [example_states] (handle_nulls_h 0 [example_states]) \<and>
   leaves_input [example_states] (convert_numeric_to_int_h 0 [example_states]) \<and>
   leaves_input [example_states] (handle_duplicates_h 0 ''first'' [example_states])"
  using steps_leave_input_unchanged [of 0 "[example_states]" parse_decimal "''first''"]
  by simp

subsection \<open>Value Normalizer\<close>

lemma getitem_update_column:
  "getitem (update_column col g df) c = (if c = col then map_option g (getitem df c) else getitem df c)"
proof -
  have "map_of (map (\<lambda>c. if fst c = col then (fst c, g (snd c)) else c) cs) c
        = (if c = col then map_option g (map_of cs c) else map_of cs c)" for cs :: "column list"
    by (induction cs) auto
  then show ?thesis by (simp add: getitem_def update_column_def)
qed

lemma replace_in_column_eq:
  "distinct (column_names df) \<Longrightarrow> replace_in_column col d df = update_column col (replace_values d) df"
  by (simp add: replace_in_column_def upd_case_eq)

lemma clean_invalid_values_numeric:
  assumes d: "distinct (column_names df)"
    and g: "getitem df ''customer_lifetime_value'' = Some s"
    and n: "is_numeric s"
  shows "clean_invalid_values df = Inl AttributeError"
proof -
  let ?df3 = "replace_in_column ''education'' education_map
               (replace_in_column ''state'' state_map
                 (replace_in_column ''gender'' gender_map df))"
  have "?df3 = update_column ''education'' (replace_values education_map)
               (update_column ''state'' (replace_values state_map)
                 (update_column ''gender'' (replace_values gender_map) df))"
    using d by (simp add: replace_in_column_eq)
  then have "getitem ?df3 ''customer_lifetime_value'' = Some s"
    using g by (simp add: getitem_update_column)
  moreover have "series_str_replace (CHR ''%'') [] s = Inl AttributeError"
    using n by (cases s) (simp_all add: series_str_replace_def)
  ultimately have "strip_percent ''customer_lifetime_value'' ?df3 = Inl AttributeError"
    by (simp add: strip_percent_def)
  then show ?thesis by (simp add: clean_invalid_values_def Let_def)
qed

lemma wf_example_numeric_clv: "wf_table example_numeric_clv"
  by (simp add: wf_table_def example_numeric_clv_def column_names_def)

text \<open>
  Claim C9. There is a well-formed table with a numeric \<open>customer_lifetime_value\<close>
  column on which \<open>clean_invalid_values\<close> raises (AttributeError, from the \<^verbatim>\<open>.str\<close>
  accessor) instead of returning a table: the Value Normalizer is not total.
\<close>

theorem clean_invalid_values_raises_on_numeric:
  "\<exists>df s. wf_table df \<and> getitem df ''customer_lifetime_value'' = Some s \<and> is_numeric s
      \<and> clean_invalid_values df = Inl AttributeError"
proof -
  have g: "getitem example_numeric_clv ''customer_lifetime_value'' = Some (FloatS [Some (15 / 2), None])"
    by (simp add: getitem_def example_numeric_clv_def)
  have d: "distinct (column_names example_numeric_clv)"
    using wf_example_numeric_clv by (simp add: wf_table_def)
  have n: "is_numeric (FloatS [Some (15 / 2), None])"
    by simp
  have "clean_invalid_values example_numeric_clv = Inl AttributeError"
    by (rule clean_invalid_values_numeric [OF d g n])
  with wf_example_numeric_clv g show ?thesis
    by (intro exI [of _ example_numeric_clv] exI [of _ "FloatS [Some (15 / 2), None]"]) simp
qed

subsection \<open>Driver\<close>

text \<open>
  Claim C1. The driver does not load the table from the path it is given: whatever the
  file system, the input path, the output path and the keep policy are, \<open>main\<close> passes
  the module \<^verbatim>\<open>csv\<close> to the loader, which raises ValueError; no step runs, nothing is
  written and no table is returned.
\<close>

theorem main_never_loads:
  "main parse fs url output_path keep_duplicates = (fs, Inl ValueError)"
  by (simp add: main_def load_data_def read_csv_def)

subsection \<open>Loops over the columns\<close>

lemma update_column_same:
  assumes d: "distinct (column_names df)" and g: "getitem df col = Some s"
  shows "update_column col (\<lambda>x. s) df = df"
proof -
  have "map (\<lambda>c. if fst c = col then (fst c, s) else c) (columns df) = columns df"
  proof (rule map_idI)
    fix c assume c: "c \<in> set (columns df)"
    show "(if fst c = col then (fst c, s) else c) = c"
      using getitem_Some_snd [OF d c] g by (cases c) auto
  qed
  then show ?thesis by (simp add: update_column_def)
qed

lemma fill_numeric_eq:
  assumes d: "distinct (column_names df)"
  shows "fill_numeric col df = update_column col fill_number df"
proof (cases "getitem df col")
  case None
  then have "col \<notin> set (column_names df)" by (simp add: getitem_None_iff)
  then have "update_column col fill_number df = df" by (rule update_column_id)
  with None show ?thesis by (simp add: fill_numeric_def)
next
  case (Some s)
  have "update_column col fill_number df = update_column col (\<lambda>x. fill_number s) df"
    using update_column_const [OF d Some, of fill_number] by simp
  then show ?thesis
    using Some setitem_as_update [OF d Some] update_column_same [OF d Some]
    by (simp add: fill_numeric_def fill_number_def)
qed

lemma fill_categorical_eq:
  assumes d: "distinct (column_names df)"
  shows "fill_categorical col df = update_column_e col fill_text df"
proof (cases "getitem df col")
  case None
  then show ?thesis by (simp add: fill_categorical_def update_column_e_def)
next
  case (Some s)
  then show ?thesis
    using setitem_as_update [OF d Some] update_column_same [OF d Some]
    by (simp add: fill_categorical_def update_column_e_def fill_text_def split: sum.splits)
qed

lemma round_to_int_eq:
  assumes d: "distinct (column_names df)"
  shows "round_to_int col df = update_column_e col (\<lambda>s. astype_int (series_round s)) df"
proof (cases "getitem df col")
  case None
  then show ?thesis by (simp add: round_to_int_def update_column_e_def)
next
  case (Some s)
  then show ?thesis
    using setitem_as_update [OF d Some]
    by (simp add: round_to_int_def update_column_e_def split: sum.splits)
qed

lemma fold_update_column:
  "distinct ns \<Longrightarrow>
   fold (\<lambda>col. update_column col g) ns df =
     df\<lparr>columns := map (\<lambda>c. if fst c \<in> set ns then (fst c, g (snd c)) else c) (columns df)\<rparr>"
proof (induction ns arbitrary: df)
  case Nil
  then show ?case by simp
next
  case (Cons n ns)
  then have "fold (\<lambda>col. update_column col g) ns (update_column n g df)
    = (update_column n g df)\<lparr>columns := map (\<lambda>c. if fst c \<in> set ns then (fst c, g (snd c)) else c)
         (columns (update_column n g df))\<rparr>"
    by simp
  also have "\<dots> = df\<lparr>columns := map (\<lambda>c. if fst c \<in> set (n # ns) then (fst c, g (snd c)) else c) (columns df)\<rparr>"
    using Cons.prems by (auto simp: update_column_def)
  finally show ?case by simp
qed

lemma fold_fill_numeric:
  assumes d: "distinct (column_names df)"
  shows "fold fill_numeric ns df = fold (\<lambda>col. update_column col fill_number) ns df"
  using d
proof (induction ns arbitrary: df)
  case Nil
  then show ?case by simp
next
  case (Cons n ns)
  then show ?case by (simp add: fill_numeric_eq)
qed

lemma update_column_e_Inr:
  assumes d: "distinct (column_names df)" and r: "update_column_e n g df = Inr df1"
  shows "index df1 = index df \<and>
         list_all2 (\<lambda>c c1. fst c1 = fst c \<and>
                      (if fst c = n then g (snd c) = Inr (snd c1) else snd c1 = snd c))
           (columns df) (columns df1)"
proof (cases "getitem df n")
  case None
  then have "n \<notin> set (column_names df)" by (simp add: getitem_None_iff)
  moreover from None r have "df1 = df" by (simp add: update_column_e_def)
  ultimately show ?thesis
    by (auto simp: list_all2_same column_names_def)
next
  case (Some s)
  with r obtain s' where s': "g s = Inr s'" and df1: "df1 = update_column n (\<lambda>x. s') df"
    by (auto simp: update_column_e_def split: sum.splits)
  have "snd c = s" if "c \<in> set (columns df)" "fst c = n" for c
    using getitem_Some_snd [OF d that(1)] that(2) Some by simp
  then show ?thesis
    using s' by (auto simp: df1 update_column_def list_all2_map2 list_all2_same)
qed

lemma for_each_update_e_Inr:
  assumes "distinct (column_names df)" and "distinct ns"
    and "for_each (\<lambda>col. update_column_e col g) ns df = Inr df'"
  shows "index df' = index df \<and>
         list_all2 (\<lambda>c c'. fst c' = fst c \<and>
                      (if fst c \<in> set ns then g (snd c) = Inr (snd c') else snd c' = snd c))
           (columns df) (columns df')"
  using assms
proof (induction ns arbitrary: df)
  case Nil
  then show ?case by (simp add: list_all2_same)
next
  case (Cons n ns)
  from Cons.prems(3) obtain df1 where
    1: "update_column_e n g df = Inr df1" and
    2: "for_each (\<lambda>col. update_column_e col g) ns df1 = Inr df'"
    by (auto split: sum.splits)
  note s1 = update_column_e_Inr [OF Cons.prems(1) 1]
  have names: "column_names df1 = column_names df"
    using s1 by (auto simp: column_names_def list_all2_conv_all_nth intro: nth_equalityI)
  have d1: "distinct (column_names df1)"
    using names Cons.prems(1) by simp
  from Cons.prems(2) have dn: "distinct ns" and nn: "n \<notin> set ns"
    by simp_all
  note s2 = Cons.IH [OF d1 dn 2]
  from s1 have l1: "length (columns df) = length (columns df1)"
    by (auto dest: list_all2_lengthD)
  from s2 have l2: "length (columns df1) = length (columns df')"
    by (auto dest: list_all2_lengthD)
  have "list_all2 (\<lambda>c c'. fst c' = fst c \<and>
                      (if fst c \<in> set (n # ns) then g (snd c) = Inr (snd c') else snd c' = snd c))
           (columns df) (columns df')"
  proof (rule list_all2_all_nthI)
    show "length (columns df) = length (columns df')"
      using l1 l2 by simp
  next
    fix i assume i: "i < length (columns df)"
    let ?c = "columns df ! i" and ?c1 = "columns df1 ! i" and ?c' = "columns df' ! i"
    have a: "fst ?c1 = fst ?c \<and> (if fst ?c = n then g (snd ?c) = Inr (snd ?c1) else snd ?c1 = snd ?c)"
      using s1 i by (simp add: list_all2_conv_all_nth)
    have b: "fst ?c' = fst ?c1 \<and>
             (if fst ?c1 \<in> set ns then g (snd ?c1) = Inr (snd ?c') else snd ?c' = snd ?c1)"
      using s2 i l1 by (simp add: list_all2_conv_all_nth)
    show "fst ?c' = fst ?c \<and>
          (if fst ?c \<in> set (n # ns) then g (snd ?c) = Inr (snd ?c') else snd ?c' = snd ?c)"
      using a b nn by (auto split: if_splits)
  qed
  with s1 s2 show ?case by simp
qed

lemma for_each_update_e_Inl:
  assumes "distinct (column_names df)" and "distinct ns"
    and "for_each (\<lambda>col. update_column_e col g) ns df = Inl e"
  shows "\<exists>c \<in> set (columns df). fst c \<in> set ns \<and> g (snd c) = Inl e"
  using assms
proof (induction ns arbitrary: df)
  case Nil
  then show ?case by simp
next
  case (Cons n ns)
  show ?case
  proof (cases "update_column_e n g df")
    case (Inl e1)
    with Cons.prems(3) have e: "e1 = e" by simp
    from Inl obtain s where s: "getitem df n = Some s" and gs: "g s = Inl e1"
      by (auto simp: update_column_e_def split: option.splits sum.splits)
    from s have "(n, s) \<in> set (columns df)"
      by (simp add: getitem_def map_of_SomeD)
    with gs e show ?thesis by force
  next
    case (Inr df1)
    with Cons.prems(3) have 2: "for_each (\<lambda>col. update_column_e col g) ns df1 = Inl e"
      by simp
    note s1 = update_column_e_Inr [OF Cons.prems(1) Inr]
    have names: "column_names df1 = column_names df"
      using s1 by (auto simp: column_names_def list_all2_conv_all_nth intro: nth_equalityI)
    have d1: "distinct (column_names df1)"
      using names Cons.prems(1) by simp
    from Cons.prems(2) have dn: "distinct ns" and nn: "n \<notin> set ns"
      by simp_all
    from Cons.IH [OF d1 dn 2] obtain c1 where
      c1: "c1 \<in> set (columns df1)" "fst c1 \<in> set ns" "g (snd c1) = Inl e"
      by blast
    from c1(1) obtain i where i: "i < length (columns df1)" "columns df1 ! i = c1"
      by (auto simp: in_set_conv_nth)
    from s1 i have li: "i < length (columns df)"
      by (simp add: list_all2_conv_all_nth)
    have a: "fst c1 = fst (columns df ! i) \<and>
             (if fst (columns df ! i) = n then g (snd (columns df ! i)) = Inr (snd c1)
              else snd c1 = snd (columns df ! i))"
      using s1 i li by (auto simp: list_all2_conv_all_nth)
    with c1(2) nn have "columns df ! i = c1"
      by (auto simp: prod_eq_iff split: if_splits)
    moreover have "columns df ! i \<in> set (columns df)"
      using li by (rule nth_mem)
    ultimately have "c1 \<in> set (columns df)" by simp
    with c1(2,3) show ?thesis
      by (intro bexI [of _ c1]) simp_all
  qed
qed

subsection \<open>Null Handler\<close>

lemma dropna_Nil_iff: "dropna xs = [] \<longleftrightarrow> (\<forall>x \<in> set xs. x = None)"
  by (induction xs) (auto simp: dropna_def split: option.splits)

lemma set_dropna: "set (dropna xs) = {v. Some v \<in> set xs}"
  by (induction xs) (auto simp: dropna_def split: option.splits)

lemma sort_Nil_iff: "sort vs = [] \<longleftrightarrow> vs = []"
  by (metis length_0_conv length_sort)

lemma median_of_None_iff: "median_of vs = None \<longleftrightarrow> vs = []"
proof (cases "vs = []")
  case True
  then show ?thesis by (simp add: median_of_def)
next
  case False
  then have "length (sort vs) \<noteq> 0" by simp
  then have "median_of vs \<noteq> None"
    unfolding median_of_def Let_def by (simp only: if_False split: if_splits) simp
  with False show ?thesis by simp
qed

lemma fold_max_Max: "fold max (ns :: nat list) a = Max (set (a # ns))"
  by (rule Max.set_eq_fold [symmetric])

lemma mode_values_Nil_iff: "mode_values xs = [] \<longleftrightarrow> dropna xs = []"
proof
  assume "dropna xs = []"
  then show "mode_values xs = []" by (simp add: mode_values_def)
next
  assume m: "mode_values xs = []"
  show "dropna xs = []"
  proof (rule ccontr)
    assume ne: "dropna xs \<noteq> []"
    let ?vs = "dropna xs"
    let ?M = "Max (set (0 # map (count_list ?vs) ?vs))"
    have "?M \<in> set (0 # map (count_list ?vs) ?vs)"
      by (rule Max_in) simp_all
    moreover have "0 < ?M"
    proof -
      from ne obtain v where v: "v \<in> set ?vs" by (cases ?vs) auto
      then have "0 < count_list ?vs v" by (metis count_list_0_iff gr0I)
      moreover have "count_list ?vs v \<le> ?M"
        using v by (intro Max_ge) auto
      ultimately show ?thesis by simp
    qed
    ultimately obtain v where "v \<in> set ?vs" "count_list ?vs v = ?M"
      by auto
    then have "v \<in> set (mode_values xs)"
      by (simp add: mode_values_def Let_def fold_max_Max)
    with m show False by simp
  qed
qed

lemma mem_numeric_columns:
  assumes d: "distinct (column_names df)" and c: "c \<in> set (columns df)"
  shows "fst c \<in> set (numeric_columns df) \<longleftrightarrow> is_numeric (snd c)"
proof
  assume "is_numeric (snd c)"
  with c show "fst c \<in> set (numeric_columns df)"
    by (auto simp: numeric_columns_def)
next
  assume "fst c \<in> set (numeric_columns df)"
  then obtain c' where c': "c' \<in> set (columns df)" "is_numeric (snd c')" "fst c' = fst c"
    by (auto simp: numeric_columns_def)
  from d have "inj_on fst (set (columns df))"
    by (simp add: column_names_def distinct_map)
  with c c' have "c' = c" by (auto dest: inj_onD)
  with c' show "is_numeric (snd c)" by simp
qed

lemma mem_object_columns:
  assumes d: "distinct (column_names df)" and c: "c \<in> set (columns df)"
  shows "fst c \<in> set (object_columns df) \<longleftrightarrow> \<not> is_numeric (snd c)"
proof
  assume "\<not> is_numeric (snd c)"
  with c show "fst c \<in> set (object_columns df)"
    by (auto simp: object_columns_def)
next
  assume "fst c \<in> set (object_columns df)"
  then obtain c' where c': "c' \<in> set (columns df)" "\<not> is_numeric (snd c')" "fst c' = fst c"
    by (auto simp: object_columns_def)
  from d have "inj_on fst (set (columns df))"
    by (simp add: column_names_def distinct_map)
  with c c' have "c' = c" by (auto dest: inj_onD)
  with c' show "\<not> is_numeric (snd c)" by simp
qed

lemma distinct_numeric_columns: "distinct (column_names df) \<Longrightarrow> distinct (numeric_columns df)"
  by (simp add: numeric_columns_def column_names_def distinct_map_filter)

lemma distinct_object_columns: "distinct (column_names df) \<Longrightarrow> distinct (object_columns df)"
  by (simp add: object_columns_def column_names_def distinct_map_filter)

lemma is_numeric_fill_number [simp]: "is_numeric (fill_number s) = is_numeric s"
  by (cases s) (simp_all add: fill_number_def fillna_num_def)

lemma fill_number_text: "\<not> is_numeric s \<Longrightarrow> fill_number s = s"
  by (cases s) (simp_all add: fill_number_def fillna_num_def)

text \<open>The table after the first loop of handle_nulls.\<close>

lemma fold_fill_numeric_columns:
  assumes d: "distinct (column_names df)"
  shows "fold fill_numeric (numeric_columns df) df =
         df\<lparr>columns := map (\<lambda>c. (fst c, fill_number (snd c))) (columns df)\<rparr>"
proof -
  have "map (\<lambda>c. if fst c \<in> set (numeric_columns df) then (fst c, fill_number (snd c)) else c) (columns df)
      = map (\<lambda>c. (fst c, fill_number (snd c))) (columns df)"
    by (rule map_cong [OF refl]) (auto simp: mem_numeric_columns [OF d] fill_number_text)
  then show ?thesis
    by (simp add: fold_fill_numeric [OF d] fold_update_column [OF distinct_numeric_columns [OF d]])
qed

lemma handle_nulls_eq:
  assumes d: "distinct (column_names df)"
  shows "handle_nulls df =
         for_each (\<lambda>col. update_column_e col fill_text) (object_columns df)
           (df\<lparr>columns := map (\<lambda>c. (fst c, fill_number (snd c))) (columns df)\<rparr>)"
proof -
  let ?df1 = "df\<lparr>columns := map (\<lambda>c. (fst c, fill_number (snd c))) (columns df)\<rparr>"
  have n1: "column_names ?df1 = column_names df"
    by (simp add: column_names_def comp_def)
  have o1: "object_columns ?df1 = object_columns df"
    by (simp add: object_columns_def filter_map comp_def)
  have "for_each fill_categorical ns t = for_each (\<lambda>col. update_column_e col fill_text) ns t"
    if "distinct (column_names t)" for ns t
    using that
  proof (induction ns arbitrary: t)
    case Nil
    then show ?case by simp
  next
    case (Cons n ns)
    show ?case
    proof (cases "update_column_e n fill_text t")
      case (Inl e)
      then show ?thesis using Cons.prems by (simp add: fill_categorical_eq)
    next
      case (Inr t1)
      from update_column_e_Inr [OF Cons.prems Inr] have "column_names t1 = column_names t"
        by (auto simp: column_names_def list_all2_conv_all_nth intro: nth_equalityI)
      with Cons.prems have "distinct (column_names t1)" by simp
      with Cons.IH [of t1] Inr Cons.prems show ?thesis
        by (simp add: fill_categorical_eq)
    qed
  qed
  from this [of ?df1 "object_columns df"] d n1 o1 show ?thesis
    by (simp add: handle_nulls_def Let_def fold_fill_numeric_columns [OF d])
qed

lemma map_fill_id:
  "None \<notin> set xs \<Longrightarrow> map (\<lambda>x. case x of None \<Rightarrow> v | Some y \<Rightarrow> Some y) xs = xs"
  by (induction xs) (auto split: option.splits)

lemma map_fill_no_missing:
  "None \<notin> (\<lambda>x. case x of None \<Rightarrow> Some m | Some y \<Rightarrow> Some y) ` set xs"
  by (auto split: option.splits)

lemma fill_number_filled: "is_numeric s \<Longrightarrow> filled_from s (fill_number s)"
  by (cases s) (simp_all add: filled_from_def fill_number_def fillna_num_def map_fill_id)

lemma fill_text_filled:
  assumes "\<not> is_numeric s" and "fill_text s = Inr s'"
  shows "filled_from s s'"
proof -
  from assms(1) obtain xs where s: "s = ObjS xs" by (cases s) auto
  show ?thesis
  proof (cases "None \<in> set xs")
    case True
    with assms(2) s show ?thesis
      by (auto simp: fill_text_def first_label_def filled_from_def fillna_str_def split: list.splits)
  next
    case False
    with assms(2) s have s': "s' = ObjS xs" by (simp add: fill_text_def)
    show ?thesis
    proof (cases "mode_values xs")
      case Nil
      then have "dropna xs = []" by (simp add: mode_values_Nil_iff)
      with False have "xs = []" by (cases xs) (auto simp: dropna_Nil_iff)
      with Nil s s' show ?thesis by (simp add: filled_from_def)
    next
      case (Cons m rest)
      with s s' False show ?thesis by (simp add: filled_from_def map_fill_id)
    qed
  qed
qed

lemma fill_text_Inl:
  assumes "\<not> is_numeric s"
  shows "fill_text s = Inl e \<longleftrightarrow> e = KeyError \<and> all_missing_text s"
proof -
  from assms obtain xs where s: "s = ObjS xs" by (cases s) auto
  have "None \<in> set xs \<and> dropna xs = [] \<longleftrightarrow> xs \<noteq> [] \<and> dropna xs = []"
    by (cases xs) (auto simp: dropna_Nil_iff)
  then show ?thesis
    using mode_values_Nil_iff [of xs]
    by (auto simp: s fill_text_def first_label_def all_missing_text_def split: list.splits)
qed

lemma filled_from_missing:
  assumes "filled_from s s'"
  shows "\<not> isna_any s' \<or> all_missing_numbers s'"
proof (cases s)
  case (IntS xs)
  with assms show ?thesis by (simp add: filled_from_def)
next
  case (FloatS xs)
  show ?thesis
  proof (cases "dropna xs = []")
    case True
    then have "median_of (dropna xs) = None" by (simp add: median_of_None_iff)
    then have "map (\<lambda>x. case x of None \<Rightarrow> median_of (dropna xs) | Some y \<Rightarrow> Some y) xs = xs"
      by (intro map_idI) (auto split: option.splits)
    with assms FloatS have "s' = FloatS xs"
      by (simp add: filled_from_def)
    with True show ?thesis
      by (simp add: all_missing_numbers_def)
  next
    case False
    then obtain m where "median_of (dropna xs) = Some m"
      using median_of_None_iff [of "dropna xs"] by (cases "median_of (dropna xs)") auto
    with assms FloatS show ?thesis
      by (simp add: filled_from_def map_fill_no_missing)
  qed
next
  case (ObjS xs)
  with assms show ?thesis
    by (auto simp: filled_from_def map_fill_no_missing split: list.splits)
qed

text \<open>
  Claim C2, amended. On a well-formed table \<open>handle_nulls\<close> raises KeyError exactly
  when a text column with at least one cell holds only missing markers. Otherwise it
  returns a table with the same row labels and column names in which every column is
  the input column with each missing cell filled: with the median of the column's
  non-missing values in a numeric column, with the first of the column's sorted modes in
  a text column. A column of the result has a missing marker only if it is a numeric
  column that holds nothing else, and such a column is returned as it was.
\<close>

theorem handle_nulls_fills:
  assumes wf: "wf_table df"
  shows "case handle_nulls df of
           Inl e \<Rightarrow> e = KeyError \<and> list_ex (\<lambda>c. all_missing_text (snd c)) (columns df)
         | Inr df' \<Rightarrow>
             \<not> list_ex (\<lambda>c. all_missing_text (snd c)) (columns df) \<and>
             index df' = index df \<and>
             list_all2 (\<lambda>c c'. fst c' = fst c \<and> filled_from (snd c) (snd c'))
               (columns df) (columns df') \<and>
             list_all (\<lambda>c'. \<not> isna_any (snd c') \<or> all_missing_numbers (snd c')) (columns df')"
proof -
  from wf have d: "distinct (column_names df)" by (simp add: wf_table_def)
  let ?df1 = "df\<lparr>columns := map (\<lambda>c. (fst c, fill_number (snd c))) (columns df)\<rparr>"
  have d1: "distinct (column_names ?df1)"
    using d by (simp add: column_names_def comp_def)
  note do = distinct_object_columns [OF d]
  note eq = handle_nulls_eq [OF d]
  show ?thesis
  proof (cases "handle_nulls df")
    case (Inl e)
    with eq have "for_each (\<lambda>col. update_column_e col fill_text) (object_columns df) ?df1 = Inl e"
      by simp
    from for_each_update_e_Inl [OF d1 do this] obtain c where
      c: "c \<in> set (columns df)" "fst c \<in> set (object_columns df)"
         "fill_text (fill_number (snd c)) = Inl e"
      by auto
    from c(1,2) have n: "\<not> is_numeric (snd c)"
      by (simp add: mem_object_columns [OF d])
    with c(3) have "e = KeyError \<and> all_missing_text (snd c)"
      by (simp add: fill_number_text fill_text_Inl)
    with c(1) Inl show ?thesis
      by (auto simp: list_ex_iff)
  next
    case (Inr df')
    with eq have "for_each (\<lambda>col. update_column_e col fill_text) (object_columns df) ?df1 = Inr df'"
      by simp
    note r = for_each_update_e_Inr [OF d1 do this]
    from r have len: "length (columns df) = length (columns df')"
      by (auto dest: list_all2_lengthD)
    have pt: "fst (columns df' ! i) = fst (columns df ! i) \<and>
              (if is_numeric (snd (columns df ! i))
               then snd (columns df' ! i) = fill_number (snd (columns df ! i))
               else fill_text (snd (columns df ! i)) = Inr (snd (columns df' ! i)))"
      if i: "i < length (columns df)" for i
    proof -
      have m: "columns df ! i \<in> set (columns df)" using i by simp
      from r have "list_all2 (\<lambda>c c'. fst c' = fst c \<and>
                      (if fst c \<in> set (object_columns df) then fill_text (snd c) = Inr (snd c')
                       else snd c' = snd c))
           (map (\<lambda>c. (fst c, fill_number (snd c))) (columns df)) (columns df')"
        by simp
      then have la: "list_all2 (\<lambda>c c'. fst c' = fst c \<and>
                      (if fst c \<in> set (object_columns df)
                       then fill_text (fill_number (snd c)) = Inr (snd c')
                       else snd c' = fill_number (snd c)))
           (columns df) (columns df')"
        by (auto simp: list_all2_map1 elim!: list_all2_mono)
      from list_all2_nthD [OF la i]
      have "fst (columns df' ! i) = fst (columns df ! i) \<and>
         (if fst (columns df ! i) \<in> set (object_columns df)
          then fill_text (fill_number (snd (columns df ! i))) = Inr (snd (columns df' ! i))
          else snd (columns df' ! i) = fill_number (snd (columns df ! i)))"
        by simp
      then show ?thesis
        using mem_object_columns [OF d m] by (auto simp: fill_number_text)
    qed
    have a: "\<not> list_ex (\<lambda>c. all_missing_text (snd c)) (columns df)"
    proof
      assume "list_ex (\<lambda>c. all_missing_text (snd c)) (columns df)"
      then obtain i where i: "i < length (columns df)" "all_missing_text (snd (columns df ! i))"
        by (auto simp: list_ex_iff in_set_conv_nth)
      from i(2) have n: "\<not> is_numeric (snd (columns df ! i))"
        by (cases "snd (columns df ! i)") (simp_all add: all_missing_text_def)
      with i(2) have "fill_text (snd (columns df ! i)) = Inl KeyError"
        by (simp add: fill_text_Inl)
      with pt [OF i(1)] n show False by simp
    qed
    have b: "list_all2 (\<lambda>c c'. fst c' = fst c \<and> filled_from (snd c) (snd c'))
               (columns df) (columns df')"
    proof (rule list_all2_all_nthI [OF len])
      fix i assume i: "i < length (columns df)"
      show "fst (columns df' ! i) = fst (columns df ! i) \<and>
            filled_from (snd (columns df ! i)) (snd (columns df' ! i))"
        using pt [OF i] fill_number_filled [of "snd (columns df ! i)"]
          fill_text_filled [of "snd (columns df ! i)" "snd (columns df' ! i)"]
        by (cases "is_numeric (snd (columns df ! i))") simp_all
    qed
    have c: "list_all (\<lambda>c'. \<not> isna_any (snd c') \<or> all_missing_numbers (snd c')) (columns df')"
      unfolding list_all_length
    proof (intro allI impI)
      fix i assume "i < length (columns df')"
      with b have "filled_from (snd (columns df ! i)) (snd (columns df' ! i))"
        by (simp add: list_all2_conv_all_nth)
      then show "\<not> isna_any (snd (columns df' ! i)) \<or> all_missing_numbers (snd (columns df' ! i))"
        by (rule filled_from_missing)
    qed
    from a b c r Inr show ?thesis by simp
  qed
qed

lemma wf_example_nulls: "wf_table example_nulls"
  by (simp add: wf_table_def example_nulls_def column_names_def)

text \<open>
  The theorem on the table of the specification's example: the numeric column
  10, 20, missing, 40 is filled with the median 20, the text column with its mode.
\<close>

theorem handle_nulls_fills_witness:
  "wf_table example_nulls \<and>
   handle_nulls example_nulls =
     Inr \<lparr>index = [0, 1, 2, 3],
          columns = [(''income'', FloatS [Some 10, Some 20, Some 20, Some 40]),
                     (''gender'', ObjS [Some ''M'', Some ''F'', Some ''F'', Some ''F'']),
                     (''children'', IntS [0, 2, 1, 0])]\<rparr>"
proof -
  have "handle_nulls example_nulls =
     Inr \<lparr>index = [0, 1, 2, 3],
          columns = [(''income'', FloatS [Some 10, Some 20, Some 20, Some 40]),
                     (''gender'', ObjS [Some ''M'', Some ''F'', Some ''F'', Some ''F'']),
                     (''children'', IntS [0, 2, 1, 0])]\<rparr>"
    by code_simp
  with wf_example_nulls handle_nulls_fills [OF wf_example_nulls] show ?thesis
    by simp
qed

lemma wf_example_missing_numbers: "wf_table example_missing_numbers"
  by (simp add: wf_table_def example_missing_numbers_def column_names_def)

text \<open>
  Claim C2 as it is written fails: on a table whose numeric column holds only missing
  markers, \<open>handle_nulls\<close> returns a table that still has them.
\<close>

theorem handle_nulls_keeps_missing_numbers:
  "wf_table example_missing_numbers \<and>
   handle_nulls example_missing_numbers =
     Inr \<lparr>index = [0, 1],
          columns = [(''gender'', ObjS [Some ''F'', Some ''F'']),
                     (''income'', FloatS [None, None])]\<rparr> \<and>
   has_missing \<lparr>index = [0, 1],
          columns = [(''gender'', ObjS [Some ''F'', Some ''F'']),
                     (''income'', FloatS [None, None])]\<rparr>"
proof -
  have "handle_nulls example_missing_numbers =
     Inr \<lparr>index = [0, 1],
          columns = [(''gender'', ObjS [Some ''F'', Some ''F'']),
                     (''income'', FloatS [None, None])]\<rparr>"
    by code_simp
  with wf_example_missing_numbers show ?thesis
    by (simp add: has_missing_def)
qed

lemma wf_example_missing_text: "wf_table example_missing_text"
  by (simp add: wf_table_def example_missing_text_def column_names_def)

text \<open>
  Claim C10. There is a well-formed table with a text column whose cells are all
  missing markers on which \<open>handle_nulls\<close> raises (KeyError, from element 0 of the
  empty mode) instead of returning a table.
\<close>

theorem handle_nulls_raises_on_missing_text:
  "\<exists>df xs. wf_table df \<and> getitem df ''gender'' = Some (ObjS xs) \<and> set xs = {None} \<and>
      handle_nulls df = Inl KeyError"
proof -
  have g: "getitem example_missing_text ''gender'' = Some (ObjS [None, None])"
    by (simp add: getitem_def example_missing_text_def)
  have "handle_nulls example_missing_text = Inl KeyError"
    by code_simp
  with wf_example_missing_text g show ?thesis
    by (intro exI [of _ example_missing_text] exI [of _ "[None, None]"]) simp
qed

subsection \<open>Integer Coercer\<close>

lemma rint_cases:
  obtains f d where "q = of_int f + d" and "0 \<le> d" and "d < 1"
    and "rint q = (if d < 1 / 2 then f else if 1 / 2 < d then f + 1 else if even f then f else f + 1)"
proof -
  define f where "f = \<lfloor>q\<rfloor>"
  define d where "d = q - of_int f"
  have "0 \<le> d" "d < 1"
    unfolding d_def f_def by linarith+
  moreover have "q = of_int f + d"
    by (simp add: d_def)
  moreover have "rint q = (if d < 1 / 2 then f else if 1 / 2 < d then f + 1 else if even f then f else f + 1)"
    by (simp add: rint_def Let_def f_def d_def)
  ultimately show ?thesis using that by blast
qed

lemma rint_nearest: "\<bar>of_int (rint q) - q\<bar> \<le> 1 / 2"
proof -
  obtain f d where q: "q = of_int f + d" and d: "0 \<le> d" "d < 1"
    and r: "rint q = (if d < 1 / 2 then f else if 1 / 2 < d then f + 1 else if even f then f else f + 1)"
    by (rule rint_cases)
  show ?thesis
    unfolding r unfolding q using d by (auto simp: abs_if)
qed

lemma rint_half_even: "\<bar>of_int (rint q) - q\<bar> = 1 / 2 \<Longrightarrow> even (rint q)"
proof -
  assume a: "\<bar>of_int (rint q) - q\<bar> = 1 / 2"
  obtain f d where q: "q = of_int f + d" and d: "0 \<le> d" "d < 1"
    and r: "rint q = (if d < 1 / 2 then f else if 1 / 2 < d then f + 1 else if even f then f else f + 1)"
    by (rule rint_cases)
  have "d = 1 / 2"
  proof (rule ccontr)
    assume n: "d \<noteq> 1 / 2"
    from a have "\<bar>of_int (rint q) - (of_int f + d)\<bar> = 1 / 2"
      using q by simp
    then show False
      unfolding r using d n by (auto simp: abs_if split: if_splits)
  qed
  then show ?thesis
    unfolding r by simp
qed

lemma cast_int64_of_int:
  "cast_int64 (of_int n) = (if int64_min \<le> n \<and> n \<le> int64_max then n else int64_min)"
  by (simp add: cast_int64_def)

lemma dropna_map_option: "dropna (map (map_option f) xs) = map f (dropna xs)"
  by (induction xs) (auto simp: dropna_def split: option.splits)

lemma round_astype_int:
  assumes "is_numeric s"
  shows "astype_int (series_round s) =
           (if isna_any s then Inl IntCastingNaNError
            else Inr (case s of IntS xs \<Rightarrow> IntS xs
                      | FloatS xs \<Rightarrow> IntS (map (\<lambda>q. cast_int64 (of_int (rint q))) (dropna xs))
                      | ObjS xs \<Rightarrow> ObjS xs))"
  using assms
  by (cases s) (auto simp: astype_int_def series_round_def dropna_map_option comp_def)

lemma round_astype_int_rounded:
  "is_numeric s \<Longrightarrow> astype_int (series_round s) = Inr s' \<Longrightarrow> rounded_from s s'"
  by (cases s) (auto simp: round_astype_int rounded_from_def split: if_splits)

lemma rounded_from_text: "\<not> is_numeric s \<Longrightarrow> rounded_from s s"
  by (cases s) (simp_all add: rounded_from_def)

lemma convert_numeric_to_int_eq:
  assumes d: "distinct (column_names df)"
  shows "convert_numeric_to_int df =
         for_each (\<lambda>col. update_column_e col (\<lambda>s. astype_int (series_round s))) (numeric_columns df) df"
proof -
  have "for_each round_to_int ns t =
        for_each (\<lambda>col. update_column_e col (\<lambda>s. astype_int (series_round s))) ns t"
    if "distinct (column_names t)" for ns t
    using that
  proof (induction ns arbitrary: t)
    case Nil
    then show ?case by simp
  next
    case (Cons n ns)
    show ?case
    proof (cases "update_column_e n (\<lambda>s. astype_int (series_round s)) t")
      case (Inl e)
      then show ?thesis using Cons.prems by (simp add: round_to_int_eq)
    next
      case (Inr t1)
      from update_column_e_Inr [OF Cons.prems Inr] have "column_names t1 = column_names t"
        by (auto simp: column_names_def list_all2_conv_all_nth intro: nth_equalityI)
      with Cons.prems have "distinct (column_names t1)" by simp
      with Cons.IH [of t1] Inr Cons.prems show ?thesis
        by (simp add: round_to_int_eq)
    qed
  qed
  from this [OF d] show ?thesis
    by (simp add: convert_numeric_to_int_def Let_def)
qed

text \<open>
  Claim C5. On a well-formed table whose numeric columns have no missing marker,
  \<open>convert_numeric_to_int\<close> returns the table in which every numeric column has
  integer type: a floating-point column holds, for each value, the 64-bit cast of the
  value rounded by \<open>rint\<close>, an integer column is as it was, and the text columns are
  untouched. \<open>rint\<close> is rounding to the nearest integer, a half going to the even
  neighbour, and the cast keeps every integer of the 64-bit range: 2.5 becomes 2 and
  3.5 becomes 4. With a missing marker in a numeric column the step raises.
\<close>

theorem convert_numeric_to_int_rounds:
  assumes wf: "wf_table df"
  shows "(case convert_numeric_to_int df of
            Inl e \<Rightarrow> e = IntCastingNaNError \<and> list_ex (\<lambda>c. missing_numbers (snd c)) (columns df)
          | Inr df' \<Rightarrow>
              \<not> list_ex (\<lambda>c. missing_numbers (snd c)) (columns df) \<and>
              index df' = index df \<and>
              list_all2 (\<lambda>c c'. fst c' = fst c \<and> rounded_from (snd c) (snd c'))
                (columns df) (columns df')) \<and>
         \<bar>of_int (rint q) - q\<bar> \<le> 1 / 2 \<and>
         (\<bar>of_int (rint q) - q\<bar> = 1 / 2 \<longrightarrow> even (rint q)) \<and>
         (int64_min \<le> rint q \<and> rint q \<le> int64_max \<longrightarrow> cast_int64 (of_int (rint q)) = rint q) \<and>
         cast_int64 (of_int (rint (5 / 2))) = 2 \<and>
         cast_int64 (of_int (rint (7 / 2))) = 4"
proof -
  from wf have d: "distinct (column_names df)" by (simp add: wf_table_def)
  note dn = distinct_numeric_columns [OF d]
  note eq = convert_numeric_to_int_eq [OF d]
  let ?g = "\<lambda>s. astype_int (series_round s)"
  have main: "case convert_numeric_to_int df of
            Inl e \<Rightarrow> e = IntCastingNaNError \<and> list_ex (\<lambda>c. missing_numbers (snd c)) (columns df)
          | Inr df' \<Rightarrow>
              \<not> list_ex (\<lambda>c. missing_numbers (snd c)) (columns df) \<and>
              index df' = index df \<and>
              list_all2 (\<lambda>c c'. fst c' = fst c \<and> rounded_from (snd c) (snd c'))
                (columns df) (columns df')"
  proof (cases "convert_numeric_to_int df")
    case (Inl e)
    with eq have "for_each (\<lambda>col. update_column_e col ?g) (numeric_columns df) df = Inl e"
      by simp
    from for_each_update_e_Inl [OF d dn this] obtain c where
      c: "c \<in> set (columns df)" "fst c \<in> set (numeric_columns df)" "?g (snd c) = Inl e"
      by auto
    from c(1,2) have n: "is_numeric (snd c)"
      by (simp add: mem_numeric_columns [OF d])
    with c(3) have "e = IntCastingNaNError \<and> missing_numbers (snd c)"
      by (auto simp: round_astype_int missing_numbers_def split: if_splits)
    with c(1) Inl show ?thesis
      by (auto simp: list_ex_iff)
  next
    case (Inr df')
    with eq have "for_each (\<lambda>col. update_column_e col ?g) (numeric_columns df) df = Inr df'"
      by simp
    note r = for_each_update_e_Inr [OF d dn this]
    from r have len: "length (columns df) = length (columns df')"
      by (auto dest: list_all2_lengthD)
    have pt: "fst (columns df' ! i) = fst (columns df ! i) \<and>
              (if is_numeric (snd (columns df ! i))
               then ?g (snd (columns df ! i)) = Inr (snd (columns df' ! i))
               else snd (columns df' ! i) = snd (columns df ! i))"
      if i: "i < length (columns df)" for i
    proof -
      have m: "columns df ! i \<in> set (columns df)" using i by simp
      from r have la: "list_all2 (\<lambda>c c'. fst c' = fst c \<and>
                      (if fst c \<in> set (numeric_columns df) then ?g (snd c) = Inr (snd c')
                       else snd c' = snd c))
           (columns df) (columns df')"
        by simp
      from list_all2_nthD [OF la i] show ?thesis
        using mem_numeric_columns [OF d m] by auto
    qed
    have a: "\<not> list_ex (\<lambda>c. missing_numbers (snd c)) (columns df)"
    proof
      assume "list_ex (\<lambda>c. missing_numbers (snd c)) (columns df)"
      then obtain i where i: "i < length (columns df)" "missing_numbers (snd (columns df ! i))"
        by (auto simp: list_ex_iff in_set_conv_nth)
      from i(2) have "?g (snd (columns df ! i)) = Inl IntCastingNaNError"
        by (simp add: missing_numbers_def round_astype_int)
      with pt [OF i(1)] i(2) show False by (simp add: missing_numbers_def)
    qed
    have b: "list_all2 (\<lambda>c c'. fst c' = fst c \<and> rounded_from (snd c) (snd c'))
               (columns df) (columns df')"
    proof (rule list_all2_all_nthI [OF len])
      fix i assume i: "i < length (columns df)"
      show "fst (columns df' ! i) = fst (columns df ! i) \<and>
            rounded_from (snd (columns df ! i)) (snd (columns df' ! i))"
        using pt [OF i] round_astype_int_rounded [of "snd (columns df ! i)" "snd (columns df' ! i)"]
          rounded_from_text [of "snd (columns df ! i)"]
        by (cases "is_numeric (snd (columns df ! i))") simp_all
    qed
    from a b r Inr show ?thesis by simp
  qed
  have ex: "cast_int64 (of_int (rint (5 / 2))) = 2 \<and> cast_int64 (of_int (rint (7 / 2))) = 4"
    by code_simp
  from main rint_nearest [of q] rint_half_even [of q] ex show ?thesis
    by (simp add: cast_int64_of_int)
qed

lemma wf_example_numbers: "wf_table example_numbers"
  by (simp add: wf_table_def example_numbers_def column_names_def)

text \<open>The theorem on a table with the values 2.5, 3.5, -2.5 and 2.6.\<close>

theorem convert_numeric_to_int_rounds_witness:
  "wf_table example_numbers \<and>
   convert_numeric_to_int example_numbers =
     Inr \<lparr>index = [0, 1, 2, 3],
          columns = [(''income'', IntS [2, 4, - 2, 3]),
                     (''children'', IntS [0, 2, 1, 0]),
                     (''gender'', ObjS [Some ''M'', None, Some ''F'', Some ''F''])]\<rparr> \<and>
   \<bar>of_int (rint (5 / 2)) - 5 / 2 :: rat\<bar> = 1 / 2 \<and> even (rint (5 / 2))"
proof -
  have 1: "convert_numeric_to_int example_numbers =
     Inr \<lparr>index = [0, 1, 2, 3],
          columns = [(''income'', IntS [2, 4, - 2, 3]),
                     (''children'', IntS [0, 2, 1, 0]),
                     (''gender'', ObjS [Some ''M'', None, Some ''F'', Some ''F''])]\<rparr>"
    by code_simp
  have 2: "rint (5 / 2) = 2"
    by code_simp
  from 1 2 wf_example_numbers convert_numeric_to_int_rounds [OF wf_example_numbers, of "5 / 2"]
  show ?thesis by simp
qed

subsection \<open>Deduplicator\<close>

lemma first_occurrence_iff:
  "i < length rs \<Longrightarrow> first_occurrence rs i \<longleftrightarrow> (\<forall>j<i. rs ! j \<noteq> rs ! i)"
  by (auto simp: first_occurrence_def in_set_conv_nth)

lemma last_occurrence_iff:
  "i < length rs \<Longrightarrow> last_occurrence rs i \<longleftrightarrow> (\<forall>j. i < j \<and> j < length rs \<longrightarrow> rs ! j \<noteq> rs ! i)"
proof
  assume i: "i < length rs" and l: "last_occurrence rs i"
  show "\<forall>j. i < j \<and> j < length rs \<longrightarrow> rs ! j \<noteq> rs ! i"
  proof (intro allI impI)
    fix j assume j: "i < j \<and> j < length rs"
    then have "drop (Suc i) rs ! (j - Suc i) = rs ! j" by simp
    moreover from j have "j - Suc i < length (drop (Suc i) rs)" by (simp, arith)
    ultimately have "rs ! j \<in> set (drop (Suc i) rs)" by (metis nth_mem)
    with l show "rs ! j \<noteq> rs ! i" by (auto simp: last_occurrence_def)
  qed
next
  assume i: "i < length rs" and a: "\<forall>j. i < j \<and> j < length rs \<longrightarrow> rs ! j \<noteq> rs ! i"
  show "last_occurrence rs i"
    unfolding last_occurrence_def
  proof
    assume "rs ! i \<in> set (drop (Suc i) rs)"
    then obtain k where k: "k < length (drop (Suc i) rs)" "drop (Suc i) rs ! k = rs ! i"
      by (auto simp: in_set_conv_nth)
    then have "rs ! (Suc i + k) = rs ! i" "Suc i + k < length rs" by simp_all
    with a show False by (metis less_add_Suc1 add_Suc)
  qed
qed

lemma sorted_filter_upt: "sorted_wrt (<) (filter P [0..<n])"
  by (rule sorted_wrt_filter) (simp add: sorted_wrt_upt)

lemma first_positions_rows:
  fixes rs :: "'a list"
  defines "ks \<equiv> filter (first_occurrence rs) [0..<length rs]"
  shows "distinct (map ((!) rs) ks) \<and> set (map ((!) rs) ks) = set rs"
proof
  have in_ks: "i \<in> set ks \<longleftrightarrow> i < length rs \<and> (\<forall>j<i. rs ! j \<noteq> rs ! i)" for i
    using first_occurrence_iff [of i rs] by (auto simp: ks_def)
  have "inj_on ((!) rs) (set ks)"
  proof (rule inj_onI)
    fix i i' assume "i \<in> set ks" "i' \<in> set ks" "rs ! i = rs ! i'"
    then have a: "i < length rs" "\<forall>j<i. rs ! j \<noteq> rs ! i"
      and b: "i' < length rs" "\<forall>j<i'. rs ! j \<noteq> rs ! i'"
      and e: "rs ! i = rs ! i'"
      using in_ks [of i] in_ks [of i'] by simp_all
    show "i = i'"
    proof (rule ccontr)
      assume "i \<noteq> i'"
      then consider "i < i'" | "i' < i" by arith
      then show False
      proof cases
        case 1
        with b(2) have "rs ! i \<noteq> rs ! i'" by blast
        with e show False by simp
      next
        case 2
        with a(2) have "rs ! i' \<noteq> rs ! i" by blast
        with e show False by simp
      qed
    qed
  qed
  moreover have "distinct ks" by (simp add: ks_def)
  ultimately show "distinct (map ((!) rs) ks)" by (simp add: distinct_map)
  show "set (map ((!) rs) ks) = set rs"
  proof
    show "set (map ((!) rs) ks) \<subseteq> set rs"
      using in_ks by auto
    show "set rs \<subseteq> set (map ((!) rs) ks)"
    proof
      fix r assume "r \<in> set rs"
      then have ex: "\<exists>i. i < length rs \<and> rs ! i = r" by (simp add: in_set_conv_nth)
      define i where "i = (LEAST i. i < length rs \<and> rs ! i = r)"
      from ex have i: "i < length rs \<and> rs ! i = r"
        unfolding i_def by (rule LeastI_ex)
      have "\<forall>j<i. rs ! j \<noteq> rs ! i"
      proof (intro allI impI)
        fix j assume j: "j < i"
        then have "\<not> (j < length rs \<and> rs ! j = r)"
          unfolding i_def by (rule not_less_Least)
        with j i show "rs ! j \<noteq> rs ! i" by simp
      qed
      with i have "i \<in> set ks" by (simp add: in_ks)
      with i show "r \<in> set (map ((!) rs) ks)" by force
    qed
  qed
qed

lemma last_positions_rows:
  fixes rs :: "'a list"
  defines "ks \<equiv> filter (last_occurrence rs) [0..<length rs]"
  shows "distinct (map ((!) rs) ks) \<and> set (map ((!) rs) ks) = set rs"
proof
  have in_ks: "i \<in> set ks \<longleftrightarrow> i < length rs \<and> (\<forall>j. i < j \<and> j < length rs \<longrightarrow> rs ! j \<noteq> rs ! i)" for i
    using last_occurrence_iff [of i rs] by (auto simp: ks_def)
  have "inj_on ((!) rs) (set ks)"
  proof (rule inj_onI)
    fix i i' assume "i \<in> set ks" "i' \<in> set ks" "rs ! i = rs ! i'"
    then have a: "i < length rs" "\<forall>j. i < j \<and> j < length rs \<longrightarrow> rs ! j \<noteq> rs ! i"
      and b: "i' < length rs" "\<forall>j. i' < j \<and> j < length rs \<longrightarrow> rs ! j \<noteq> rs ! i'"
      and e: "rs ! i = rs ! i'"
      using in_ks [of i] in_ks [of i'] by simp_all
    show "i = i'"
    proof (rule ccontr)
      assume "i \<noteq> i'"
      then consider "i < i'" | "i' < i" by arith
      then show False
      proof cases
        case 1
        with a(2) b(1) have "rs ! i' \<noteq> rs ! i" by blast
        with e show False by simp
      next
        case 2
        with b(2) a(1) have "rs ! i \<noteq> rs ! i'" by blast
        with e show False by simp
      qed
    qed
  qed
  moreover have "distinct ks" by (simp add: ks_def)
  ultimately show "distinct (map ((!) rs) ks)" by (simp add: distinct_map)
  show "set (map ((!) rs) ks) = set rs"
  proof
    show "set (map ((!) rs) ks) \<subseteq> set rs"
      by (auto simp: ks_def)
    show "set rs \<subseteq> set (map ((!) rs) ks)"
    proof
      fix r assume "r \<in> set rs"
      then have ex: "\<exists>i. i < length rs \<and> rs ! i = r" by (simp add: in_set_conv_nth)
      define i where "i = (GREATEST i. i < length rs \<and> rs ! i = r)"
      have bound: "y \<le> length rs" if "y < length rs \<and> rs ! y = r" for y
        using that by simp
      from ex have i: "i < length rs \<and> rs ! i = r"
        unfolding i_def by (rule GreatestI_ex_nat) (rule bound)
      have "\<forall>j. i < j \<and> j < length rs \<longrightarrow> rs ! j \<noteq> rs ! i"
      proof (intro allI impI notI)
        fix j assume j: "i < j \<and> j < length rs" and e: "rs ! j = rs ! i"
        with i have "j < length rs \<and> rs ! j = r" by simp
        then have "j \<le> i"
          unfolding i_def by (rule Greatest_le_nat) (rule bound)
        with j show False by simp
      qed
      with i have "i \<in> set ks" by (simp add: in_ks)
      then have "rs ! i \<in> set (map ((!) rs) ks)" by simp
      with i show "r \<in> set (map ((!) rs) ks)" by simp
    qed
  qed
qed

lemma length_rows [simp]: "length (rows df) = length (index df)"
  by (simp add: rows_def)

lemma rows_nth: "i < length (index df) \<Longrightarrow> rows df ! i = row_at df i"
  by (simp add: rows_def)

lemma cells_series_take:
  "k < length ks \<Longrightarrow> ks ! k < series_len s \<Longrightarrow> cells (series_take ks s) ! k = cells s ! (ks ! k)"
  by (cases s) simp_all

lemma series_len_take [simp]: "series_len (series_take ks s) = length ks"
  by (cases s) simp_all

lemma rows_take_rows:
  assumes wf: "wf_table df" and ks: "\<forall>k \<in> set ks. k < length (index df)"
  shows "rows (take_rows ks df) = map ((!) (rows df)) ks"
proof (rule nth_equalityI)
  show "length (rows (take_rows ks df)) = length (map ((!) (rows df)) ks)"
    by (simp add: take_rows_def)
next
  fix j assume "j < length (rows (take_rows ks df))"
  then have j: "j < length ks" by (simp add: take_rows_def)
  then have kj: "ks ! j < length (index df)" using ks by simp
  have len: "series_len (snd c) = length (index df)" if "c \<in> set (columns df)" for c
    using wf that by (simp add: wf_table_def list_all_iff)
  have "rows (take_rows ks df) ! j = row_at (take_rows ks df) j"
    using j by (simp add: rows_def take_rows_def)
  also have "\<dots> = map (\<lambda>c. cells (series_take ks (snd c)) ! j) (columns df)"
    by (simp add: row_at_def take_rows_def comp_def)
  also have "\<dots> = map (\<lambda>c. cells (snd c) ! (ks ! j)) (columns df)"
    using j kj len by (intro map_cong [OF refl]) (simp add: cells_series_take)
  also have "\<dots> = rows df ! (ks ! j)"
    using kj by (simp add: rows_nth row_at_def)
  finally show "rows (take_rows ks df) ! j = map ((!) (rows df)) ks ! j"
    using j by simp
qed

lemma rows_reset_index [simp]: "rows (reset_index df) = rows df"
  by (simp add: rows_def reset_index_def row_at_def)

lemma handle_duplicates_empty:
  "df_empty df \<Longrightarrow> handle_duplicates df keep = Inr (reset_index df)"
  by (simp add: handle_duplicates_def drop_duplicates_def)

lemma handle_duplicates_invalid:
  "\<not> df_empty df \<Longrightarrow> keep \<noteq> ''first'' \<Longrightarrow> keep \<noteq> ''last'' \<Longrightarrow>
   handle_duplicates df keep = Inl ValueError"
  by (simp add: handle_duplicates_def drop_duplicates_def duplicated_def)

lemma handle_duplicates_first:
  assumes "\<not> df_empty df"
  shows "handle_duplicates df ''first'' =
         Inr (reset_index (take_rows (filter (first_occurrence (rows df)) [0..<length (rows df)]) df))"
proof -
  have "filter (\<lambda>i. \<not> map (\<lambda>i. rows df ! i \<in> set (take i (rows df))) [0..<length (index df)] ! i)
          [0..<length (index df)]
      = filter (first_occurrence (rows df)) [0..<length (index df)]"
    by (rule filter_cong [OF refl]) (simp add: first_occurrence_def)
  with assms show ?thesis
    by (simp add: handle_duplicates_def drop_duplicates_def duplicated_def Let_def)
qed

lemma handle_duplicates_last:
  assumes "\<not> df_empty df"
  shows "handle_duplicates df ''last'' =
         Inr (reset_index (take_rows (filter (last_occurrence (rows df)) [0..<length (rows df)]) df))"
proof -
  have "filter (\<lambda>i. \<not> map (\<lambda>i. rows df ! i \<in> set (drop (Suc i) (rows df))) [0..<length (index df)] ! i)
          [0..<length (index df)]
      = filter (last_occurrence (rows df)) [0..<length (index df)]"
    by (rule filter_cong [OF refl]) (simp add: last_occurrence_def)
  with assms show ?thesis
    by (simp add: handle_duplicates_def drop_duplicates_def duplicated_def Let_def)
qed

lemma kept_table:
  assumes wf: "wf_table df" and ks: "\<forall>k \<in> set ks. k < length (index df)"
  shows "column_names (reset_index (take_rows ks df)) = column_names df \<and>
         rows (reset_index (take_rows ks df)) = map ((!) (rows df)) ks \<and>
         index (reset_index (take_rows ks df)) = map int [0..<length ks] \<and>
         wf_table (reset_index (take_rows ks df))"
proof -
  have 1: "column_names (reset_index (take_rows ks df)) = column_names df"
    by (simp add: reset_index_def take_rows_def column_names_def comp_def)
  have 2: "rows (reset_index (take_rows ks df)) = map ((!) (rows df)) ks"
    using rows_take_rows [OF wf ks] by simp
  have 3: "index (reset_index (take_rows ks df)) = map int [0..<length ks]"
    by (simp add: reset_index_def take_rows_def)
  have 4: "wf_table (reset_index (take_rows ks df))"
    using wf 1 by (simp add: wf_table_def) (simp add: reset_index_def take_rows_def list_all_iff)
  from 1 2 3 4 show ?thesis by simp
qed

lemma kept_first:
  assumes wf: "wf_table df"
  defines "ks \<equiv> filter (first_occurrence (rows df)) [0..<length (rows df)]"
  shows "wf_table (reset_index (take_rows ks df)) \<and>
         column_names (reset_index (take_rows ks df)) = column_names df \<and>
         sorted_wrt (<) ks \<and>
         set ks = {i. i < length (rows df) \<and> (\<forall>j<i. rows df ! j \<noteq> rows df ! i)} \<and>
         rows (reset_index (take_rows ks df)) = map ((!) (rows df)) ks \<and>
         index (reset_index (take_rows ks df)) = map int [0..<length ks] \<and>
         distinct (rows (reset_index (take_rows ks df))) \<and>
         set (rows (reset_index (take_rows ks df))) = set (rows df)"
proof -
  have b: "\<forall>k \<in> set ks. k < length (index df)"
    by (simp add: ks_def)
  note t = kept_table [OF wf b]
  have s: "sorted_wrt (<) ks"
    unfolding ks_def by (rule sorted_filter_upt)
  have m: "set ks = {i. i < length (rows df) \<and> (\<forall>j<i. rows df ! j \<noteq> rows df ! i)}"
  proof (rule set_eqI)
    fix i
    show "i \<in> set ks \<longleftrightarrow> i \<in> {i. i < length (rows df) \<and> (\<forall>j<i. rows df ! j \<noteq> rows df ! i)}"
      using first_occurrence_iff [of i "rows df"] by (simp add: ks_def) blast
  qed
  from first_positions_rows [of "rows df"]
  have r: "distinct (map ((!) (rows df)) ks) \<and> set (map ((!) (rows df)) ks) = set (rows df)"
    by (simp only: ks_def)
  from t s m r show ?thesis by simp
qed

lemma kept_last:
  assumes wf: "wf_table df"
  defines "ks \<equiv> filter (last_occurrence (rows df)) [0..<length (rows df)]"
  shows "wf_table (reset_index (take_rows ks df)) \<and>
         column_names (reset_index (take_rows ks df)) = column_names df \<and>
         sorted_wrt (<) ks \<and>
         set ks = {i. i < length (rows df) \<and>
                      (\<forall>j. i < j \<and> j < length (rows df) \<longrightarrow> rows df ! j \<noteq> rows df ! i)} \<and>
         rows (reset_index (take_rows ks df)) = map ((!) (rows df)) ks \<and>
         index (reset_index (take_rows ks df)) = map int [0..<length ks] \<and>
         distinct (rows (reset_index (take_rows ks df))) \<and>
         set (rows (reset_index (take_rows ks df))) = set (rows df)"
proof -
  have b: "\<forall>k \<in> set ks. k < length (index df)"
    by (simp add: ks_def)
  note t = kept_table [OF wf b]
  have s: "sorted_wrt (<) ks"
    unfolding ks_def by (rule sorted_filter_upt)
  have m: "set ks = {i. i < length (rows df) \<and>
                      (\<forall>j. i < j \<and> j < length (rows df) \<longrightarrow> rows df ! j \<noteq> rows df ! i)}"
  proof (rule set_eqI)
    fix i
    show "i \<in> set ks \<longleftrightarrow> i \<in> {i. i < length (rows df) \<and>
                      (\<forall>j. i < j \<and> j < length (rows df) \<longrightarrow> rows df ! j \<noteq> rows df ! i)}"
      using last_occurrence_iff [of i "rows df"] by (simp add: ks_def) blast
  qed
  from last_positions_rows [of "rows df"]
  have r: "distinct (map ((!) (rows df)) ks) \<and> set (map ((!) (rows df)) ks) = set (rows df)"
    by (simp only: ks_def)
  from t s m r show ?thesis by simp
qed

text \<open>
  Claim C3, amended. On a well-formed table, \<open>handle_duplicates\<close> returns a table
  with no row or no column as it is, with fresh row labels, whatever \<open>keep\<close> is; on a
  table with a row and a column it raises ValueError when \<open>keep\<close> is neither
  \<open>first\<close> nor \<open>last\<close>. For \<open>first\<close> or \<open>last\<close> and a table with a column it
  returns the rows at the positions \<open>ks\<close>, in increasing order, at which no equal row
  stands before (\<open>first\<close>) or after (\<open>last\<close>): the result has the same columns,
  every row of the input once, and the row labels 0, 1, 2, ...
\<close>

theorem handle_duplicates_keeps_one:
  assumes wf: "wf_table df"
  shows
   "(df_empty df \<longrightarrow> handle_duplicates df keep = Inr (reset_index df)) \<and>
    (\<not> df_empty df \<and> keep \<noteq> ''first'' \<and> keep \<noteq> ''last'' \<longrightarrow>
       handle_duplicates df keep = Inl ValueError) \<and>
    (columns df \<noteq> [] \<and> (keep = ''first'' \<or> keep = ''last'') \<longrightarrow>
       (\<exists>df' ks. handle_duplicates df keep = Inr df' \<and>
          wf_table df' \<and> column_names df' = column_names df \<and>
          sorted_wrt (<) ks \<and>
          set ks = {i. i < length (rows df) \<and>
                       (if keep = ''first'' then \<forall>j<i. rows df ! j \<noteq> rows df ! i
                        else \<forall>j. i < j \<and> j < length (rows df) \<longrightarrow> rows df ! j \<noteq> rows df ! i)} \<and>
          rows df' = map ((!) (rows df)) ks \<and>
          index df' = map int [0..<length ks] \<and>
          distinct (rows df') \<and> set (rows df') = set (rows df)))"
proof (intro conjI impI)
  assume "df_empty df"
  then show "handle_duplicates df keep = Inr (reset_index df)"
    by (rule handle_duplicates_empty)
next
  assume "\<not> df_empty df \<and> keep \<noteq> ''first'' \<and> keep \<noteq> ''last''"
  then show "handle_duplicates df keep = Inl ValueError"
    by (simp add: handle_duplicates_invalid)
next
  assume a: "columns df \<noteq> [] \<and> (keep = ''first'' \<or> keep = ''last'')"
  let ?P = "\<lambda>df' ks. handle_duplicates df keep = Inr df' \<and>
          wf_table df' \<and> column_names df' = column_names df \<and>
          sorted_wrt (<) ks \<and>
          set ks = {i. i < length (rows df) \<and>
                       (if keep = ''first'' then \<forall>j<i. rows df ! j \<noteq> rows df ! i
                        else \<forall>j. i < j \<and> j < length (rows df) \<longrightarrow> rows df ! j \<noteq> rows df ! i)} \<and>
          rows df' = map ((!) (rows df)) ks \<and>
          index df' = map int [0..<length ks] \<and>
          distinct (rows df') \<and> set (rows df') = set (rows df)"
  show "\<exists>df' ks. ?P df' ks"
  proof (cases "df_empty df")
    case True
    with a have i: "index df = []" by (simp add: df_empty_def)
    then have r: "rows df = []" by (simp add: rows_def)
    have w: "wf_table (reset_index df)"
      using wf i by (simp add: wf_table_def reset_index_def column_names_def)
    have n: "column_names (reset_index df) = column_names df"
      by (simp add: reset_index_def column_names_def)
    have x: "index (reset_index df) = []"
      using i by (simp add: reset_index_def)
    have "?P (reset_index df) []"
      using handle_duplicates_empty [OF True, of keep] w r n x
      by simp
    then show ?thesis by blast
  next
    case False
    show ?thesis
    proof (cases "keep = ''first''")
      case True
      let ?ks = "filter (first_occurrence (rows df)) [0..<length (rows df)]"
      have "?P (reset_index (take_rows ?ks df)) ?ks"
        by (simp only: True if_True simp_thms)
           (rule conjI [OF handle_duplicates_first [OF False] kept_first [OF wf]])
      then show ?thesis by blast
    next
      case f: False
      with a have l: "keep = ''last''" by simp
      let ?ks = "filter (last_occurrence (rows df)) [0..<length (rows df)]"
      have "?P (reset_index (take_rows ?ks df)) ?ks"
        by (simp only: f if_False, simp only: l)
           (rule conjI [OF handle_duplicates_last [OF False] kept_last [OF wf]])
      then show ?thesis by blast
    qed
  qed
qed

lemma wf_example_duplicates: "wf_table example_duplicates"
  by (simp add: wf_table_def example_duplicates_def column_names_def)

lemma wf_example_header_only: "wf_table example_header_only"
  by (simp add: wf_table_def example_header_only_def column_names_def)

text \<open>The theorem on the specification's rows A, A, B, with a third value for \<open>keep\<close>.\<close>

theorem handle_duplicates_keeps_one_witness:
  "wf_table example_duplicates \<and>
   handle_duplicates example_duplicates ''first'' =
     Inr \<lparr>index = [0, 1],
          columns = [(''state'', ObjS [Some ''Arizona'', Some ''Oregon'']),
                     (''income'', IntS [10, 10])]\<rparr> \<and>
   handle_duplicates example_duplicates ''last'' =
     Inr \<lparr>index = [0, 1],
          columns = [(''state'', ObjS [Some ''Arizona'', Some ''Oregon'']),
                     (''income'', IntS [10, 10])]\<rparr> \<and>
   handle_duplicates example_duplicates ''all'' = Inl ValueError"
proof -
  have 1: "handle_duplicates example_duplicates ''first'' =
     Inr \<lparr>index = [0, 1],
          columns = [(''state'', ObjS [Some ''Arizona'', Some ''Oregon'']),
                     (''income'', IntS [10, 10])]\<rparr>"
    by code_simp
  have 2: "handle_duplicates example_duplicates ''last'' =
     Inr \<lparr>index = [0, 1],
          columns = [(''state'', ObjS [Some ''Arizona'', Some ''Oregon'']),
                     (''income'', IntS [10, 10])]\<rparr>"
    by code_simp
  have 3: "\<not> df_empty example_duplicates"
    by (simp add: df_empty_def example_duplicates_def)
  from 1 2 3 wf_example_duplicates
    handle_duplicates_keeps_one [OF wf_example_duplicates, of "''all''"]
  show ?thesis by simp
qed

text \<open>
  Claim C3 as it is written fails: on a table with a header and no rows
  \<open>handle_duplicates\<close> returns for a \<open>keep\<close> that is neither \<open>first\<close> nor \<open>last\<close>.
\<close>

theorem handle_duplicates_accepts_any_keep_on_empty:
  "wf_table example_header_only \<and>
   ''neither'' \<noteq> ''first'' \<and> ''neither'' \<noteq> ''last'' \<and>
   handle_duplicates example_header_only ''neither'' = Inr example_header_only"
proof -
  have "handle_duplicates example_header_only ''neither'' = Inr example_header_only"
    by code_simp
  with wf_example_header_only show ?thesis by simp
qed

end
